theory Spec2Isabelle
  imports Complex_Main "HOL-Library.Multiset"
begin

section \<open>Data model (core/types.ts)\<close>

text \<open>
  Conventions of the embedding. A JavaScript \<open>number\<close> held in a field is a \<open>real\<close>
  (finite, exact arithmetic); where the code produces \<open>-Infinity\<close> or \<open>NaN\<close> itself,
  the model has a case for it. A JavaScript string is a \<open>string\<close> (characters are code
  units below 256). A \<open>vscode.Uri\<close> is the string its \<open>toString()\<close> gives, and
  \<open>Uri.parse\<close> of such a string gives the same Uri back. An optional property
  (\<open>'uri' in item\<close>, \<open>typeof x === 'number'\<close>) is an \<open>option\<close>. Objects mutated in
  place are values that the functions return updated.

  \<open>SearchItemType\<close> is a string enum, so the \<open>type\<close> tag of an item is a string at run
  time; a value read back from a cache file can be any string.
\<close>

type_synonym SearchItemType = string

definition File :: SearchItemType where
  "File = ''file''"


definition Symbol :: SearchItemType where
  "Symbol = ''symbol''"

definition Class :: SearchItemType where
  "Class = ''class''"

definition TextMatch :: SearchItemType where
  "TextMatch = ''text''"

record Position =
  line :: nat
  character :: nat

record Range =
  start :: Position
  endp :: Position

text \<open>
  The \<open>action\<close> closures the providers build: the file provider opens the document, the
  symbol providers open it and reveal a range; anything else is opaque.
\<close>

datatype Action =
  ShowTextDocument string
| RevealRange string Range
| OtherAction nat

text \<open>
  One record for the five item variants: the fields of \<open>SearchItem\<close> and, as optional
  fields, those that \<open>FileSearchItem\<close>, \<open>CommandSearchItem\<close>, \<open>SymbolSearchItem\<close> and
  \<open>TextMatchItem\<close> add. The code itself tests the presence of \<open>uri\<close>, \<open>range\<close> and
  \<open>command\<close> rather than trusting the tag.
\<close>

record SearchItem =
  id' :: string
  label :: string
  description :: string
  detail :: string
  type :: SearchItemType
  iconPath :: "string option"
  action :: Action
  score :: "real option"
  activityScore :: "real option"
  priority :: "real option"
  uri :: "string option"
  relativePath :: "string option"
  command :: "string option"
  args :: "string list option"
  range' :: "Range option"
  symbolKind :: "nat option"
  symbolGroup :: "nat option"
  lineText :: "string option"
  matchText :: "string option"

section \<open>Index coordinator: deduplication and merging (core/search-service.ts)\<close>
















section \<open>Ranking (core/search-service.ts)\<close>

text \<open>
  The comparator of \<open>sortResultsByPriority\<close> computes with \<open>-Infinity\<close> (a missing
  score), so its arithmetic is over the JavaScript numbers with their infinities and
  \<open>NaN\<close>: \<open>-Infinity - (-Infinity)\<close> is \<open>NaN\<close>, and every comparison with \<open>NaN\<close> is
  false.

  A score is a double, and the difference of two scores is the double nearest to their
  exact difference. The comparator tests that computed difference against the epsilon,
  so the rounding decides which branch is taken when the exact difference is next to
  the epsilon. \<open>fl\<close> is this rounding: \<open>fl x\<close> is the double nearest to \<open>x\<close>. It is a
  parameter of everything that subtracts scores; what is known of it is \<open>isRounding\<close>
  below. (A difference too large for a double would be an infinity of the same sign;
  scores are nowhere near that, and it is not modelled.)
\<close>

datatype jsnum = Fin real | PosInf | NegInf | NaN

fun jsSub :: "(real \<Rightarrow> real) \<Rightarrow> jsnum \<Rightarrow> jsnum \<Rightarrow> jsnum" where
  "jsSub fl (Fin x) (Fin y) = Fin (fl (x - y))"
| "jsSub fl NaN _ = NaN"
| "jsSub fl _ NaN = NaN"
| "jsSub fl PosInf PosInf = NaN"
| "jsSub fl NegInf NegInf = NaN"
| "jsSub fl PosInf _ = PosInf"
| "jsSub fl NegInf _ = NegInf"
| "jsSub fl (Fin x) PosInf = NegInf"
| "jsSub fl (Fin x) NegInf = PosInf"

fun jsAbs :: "jsnum \<Rightarrow> jsnum" where
  "jsAbs (Fin x) = Fin \<bar>x\<bar>"
| "jsAbs PosInf = PosInf"
| "jsAbs NegInf = PosInf"
| "jsAbs NaN = NaN"

fun jsGreater :: "jsnum \<Rightarrow> jsnum \<Rightarrow> bool" where
  "jsGreater (Fin x) (Fin y) = (x > y)"
| "jsGreater NaN _ = False"
| "jsGreater _ NaN = False"
| "jsGreater PosInf PosInf = False"
| "jsGreater PosInf _ = True"
| "jsGreater _ PosInf = False"
| "jsGreater NegInf _ = False"
| "jsGreater (Fin x) NegInf = True"

text \<open>
  \<open>const SCORE_EPSILON = 1e-9\<close>: the literal denotes the double nearest to \<open>1/10^9\<close>,
  which is \<open>4835703278458517 / 2^82\<close>, a little more than \<open>1/10^9\<close>.
\<close>

definition SCORE_EPSILON :: real where
  "SCORE_EPSILON = 4835703278458517 / 2 ^ 82"

text \<open>\<open>typeof x.activityScore === 'number' ? 1 : 0\<close>\<close>

definition hasActivity :: "SearchItem \<Rightarrow> real" where
  "hasActivity x = (if activityScore x \<noteq> None then 1 else 0)"

text \<open>\<open>('score' in x && typeof x.score === 'number') ? x.score : -Infinity\<close>\<close>

definition scoreOrNegInf :: "SearchItem \<Rightarrow> jsnum" where
  "scoreOrNegInf x = (case score x of Some s \<Rightarrow> Fin s | None \<Rightarrow> NegInf)"

text \<open>\<open>x.priority || 50\<close>: a missing priority and the falsy priority 0 both give 50.\<close>

definition priorityOr50 :: "SearchItem \<Rightarrow> real" where
  "priorityOr50 x = (case priority x of Some p \<Rightarrow> (if p = 0 then 50 else p) | None \<Rightarrow> 50)"

text \<open>
  The comparator passed to \<open>results.sort\<close>; its result is the number it returns. The two
  score differences are rounded. The other differences are written exactly: the one of
  the two \<open>hasActivity\<close> flags and the one of two timestamps (integers below \<open>2^53\<close>) are
  exact in doubles too, and of the difference of the priorities the sort reads the sign
  only, which rounding keeps.
\<close>

definition compareItems :: "(real \<Rightarrow> real) \<Rightarrow> SearchItem \<Rightarrow> SearchItem \<Rightarrow> jsnum" where
  "compareItems fl a b =
     (let hasActivityA = hasActivity a; hasActivityB = hasActivity b in
      if hasActivityB \<noteq> hasActivityA then Fin (hasActivityB - hasActivityA)
      else if hasActivityA = 1 \<and> hasActivityB = 1
              \<and> the (activityScore b) \<noteq> the (activityScore a)
      then Fin (the (activityScore b) - the (activityScore a))
      else
        (let scoreA = scoreOrNegInf a; scoreB = scoreOrNegInf b in
         if jsGreater (jsAbs (jsSub fl scoreA scoreB)) (Fin SCORE_EPSILON)
         then jsSub fl scoreB scoreA
         else Fin (priorityOr50 b - priorityOr50 a)))"

text \<open>
  \<open>Array.prototype.sort\<close> is the engine's. It reads the comparator's result by its sign,
  a \<open>NaN\<close> result counting as 0.
\<close>

fun isNegative :: "jsnum \<Rightarrow> bool" where
  "isNegative (Fin x) = (x < 0)"
| "isNegative NegInf = True"
| "isNegative PosInf = False"
| "isNegative NaN = False"

fun isPositive :: "jsnum \<Rightarrow> bool" where
  "isPositive (Fin x) = (x > 0)"
| "isPositive PosInf = True"
| "isPositive NegInf = False"
| "isPositive NaN = False"

text \<open>
  The extension runs on V8. On an array shorter than 64 elements V8's sort
  (\<open>ArrayTimSortImpl\<close> in \<open>third_party/v8/builtins/array-sort.tq\<close>) makes the whole array
  one run: \<open>CountAndMakeRun\<close> takes the longest prefix in which every element is not
  before its predecessor, or in which every element is before its predecessor, and
  reverses it in the second case; \<open>BinaryInsertionSort\<close> then inserts each later
  element, from the left, at the place that a binary search of the sorted part gives.
  The comparator is called with the later element (the pivot) first. \<open>arraySort\<close> is
  this code. On a longer array V8 sorts runs of this kind and merges them, which is not
  modelled: \<open>arraySort\<close> is V8's result for arrays shorter than 64 elements only, and
  it is evaluated on such arrays only.
\<close>

text \<open>
  The loop of \<open>CountAndMakeRun\<close> from the third element on: the elements that continue
  the run, and the elements left over.
\<close>

fun runPrefix :: "('a \<Rightarrow> 'a \<Rightarrow> bool) \<Rightarrow> 'a \<Rightarrow> 'a list \<Rightarrow> 'a list \<times> 'a list" where
  "runPrefix continues previousElement [] = ([], [])"
| "runPrefix continues previousElement (currentElement # rest) =
     (if continues currentElement previousElement
      then (currentElement # fst (runPrefix continues currentElement rest),
            snd (runPrefix continues currentElement rest))
      else ([], currentElement # rest))"

definition countAndMakeRun :: "('a \<Rightarrow> 'a \<Rightarrow> jsnum) \<Rightarrow> 'a list \<Rightarrow> 'a list \<times> 'a list" where
  "countAndMakeRun cmp xs =
     (case xs of
        [] \<Rightarrow> ([], [])
      | [x] \<Rightarrow> ([x], [])
      | elementHigh # elementLow # rest \<Rightarrow>
          (let isDescending = isNegative (cmp elementLow elementHigh);
               more = runPrefix (\<lambda>currentElement previousElement.
                         if isDescending then isNegative (cmp currentElement previousElement)
                         else \<not> isNegative (cmp currentElement previousElement)) elementLow rest;
               run = elementHigh # elementLow # fst more
           in (if isDescending then rev run else run, snd more)))"

text \<open>
  The search loop of \<open>BinaryInsertionSort\<close>: \<open>mid = left + ((right - left) >> 1)\<close>, then
  \<open>right = mid\<close> if the pivot is before the element at \<open>mid\<close>, else \<open>left = mid + 1\<close>.
\<close>

function binarySearch :: "('a \<Rightarrow> 'a \<Rightarrow> jsnum) \<Rightarrow> 'a \<Rightarrow> 'a list \<Rightarrow> nat \<Rightarrow> nat \<Rightarrow> nat" where
  "binarySearch cmp pivot workArray left right =
     (if left < right then
        (let mid = left + (right - left) div 2 in
         if isNegative (cmp pivot (workArray ! mid)) then binarySearch cmp pivot workArray left mid
         else binarySearch cmp pivot workArray (mid + 1) right)
      else left)"
  by pat_completeness auto
termination
  by (relation "measure (\<lambda>(cmp, pivot, workArray, left, right). right - left)") auto

declare binarySearch.simps [simp del]

definition insertPivot :: "('a \<Rightarrow> 'a \<Rightarrow> jsnum) \<Rightarrow> 'a list \<Rightarrow> 'a \<Rightarrow> 'a list" where
  "insertPivot cmp workArray pivot =
     (let left = binarySearch cmp pivot workArray 0 (length workArray)
      in take left workArray @ pivot # drop left workArray)"

definition binaryInsertionSort :: "('a \<Rightarrow> 'a \<Rightarrow> jsnum) \<Rightarrow> 'a list \<Rightarrow> 'a list \<Rightarrow> 'a list" where
  "binaryInsertionSort cmp run rest = foldl (insertPivot cmp) run rest"

definition arraySort :: "('a \<Rightarrow> 'a \<Rightarrow> jsnum) \<Rightarrow> 'a list \<Rightarrow> 'a list" where
  "arraySort cmp xs =
     (let made = countAndMakeRun cmp xs in binaryInsertionSort cmp (fst made) (snd made))"

text \<open>
  \<open>sortResultsByPriority\<close>: \<open>results.sort\<close> with the comparator above. \<open>sortFn\<close> is the
  engine's \<open>Array.prototype.sort\<close>, \<open>arraySort\<close> when the array has less than 64 elements.
\<close>

definition sortResultsByPriority ::
  "((SearchItem \<Rightarrow> SearchItem \<Rightarrow> jsnum) \<Rightarrow> SearchItem list \<Rightarrow> SearchItem list)
     \<Rightarrow> (real \<Rightarrow> real) \<Rightarrow> SearchItem list \<Rightarrow> SearchItem list" where
  "sortResultsByPriority sortFn fl results = sortFn (compareItems fl) results"

section \<open>Recency boosting (core/search-service.ts)\<close>

definition oneHour :: real where
  "oneHour = 60 * 60 * 1000"

text \<open>\<open>Math.max(0, 1 - (age / oneHour))\<close> with \<open>age = now - timestamp\<close>\<close>

definition recencyScore :: "real \<Rightarrow> real \<Rightarrow> real" where
  "recencyScore now timestamp = max 0 (1 - (now - timestamp) / oneHour)"

text \<open>\<open>item.score *= boost\<close>, done only if the item has a numeric score.\<close>

definition scaleScore :: "real \<Rightarrow> SearchItem \<Rightarrow> SearchItem" where
  "scaleScore boost item =
     (case score item of Some s \<Rightarrow> item\<lparr>score := Some (s * boost)\<rparr> | None \<Rightarrow> item)"

text \<open>
  \<open>this.recentlyModifiedFiles.get(uri)\<close> tested by \<open>if (timestamp)\<close>: the entry must exist
  and be truthy, that is, not 0.
\<close>

definition truthyTimestamp :: "(string \<rightharpoonup> real) \<Rightarrow> string \<Rightarrow> real option" where
  "truthyTimestamp recentlyModifiedFiles u =
     (case recentlyModifiedFiles u of Some t \<Rightarrow> (if t \<noteq> 0 then Some t else None) | None \<Rightarrow> None)"

text \<open>The first \<open>if\<close> / \<open>else if\<close> of the loop body: the boost from the file's recency.\<close>

definition boostByFile :: "real \<Rightarrow> (string \<rightharpoonup> real) \<Rightarrow> real \<Rightarrow> SearchItem \<Rightarrow> SearchItem" where
  "boostByFile activityWeight recentlyModifiedFiles now item =
     (if type item = File \<and> uri item \<noteq> None then
        (case truthyTimestamp recentlyModifiedFiles (the (uri item)) of
           Some timestamp \<Rightarrow>
             scaleScore (1 + recencyScore now timestamp * activityWeight) item
         | None \<Rightarrow> item)
      else if (type item = Symbol \<or> type item = Class) \<and> uri item \<noteq> None then
        (case truthyTimestamp recentlyModifiedFiles (the (uri item)) of
           Some timestamp \<Rightarrow>
             scaleScore (1 + recencyScore now timestamp * activityWeight * 0.8) item
         | None \<Rightarrow> item)
      else item)"

text \<open>The second \<open>if\<close> of the loop body: the boost from the item's own \<open>activityScore\<close>.\<close>

definition boostByActivity :: "real \<Rightarrow> real \<Rightarrow> SearchItem \<Rightarrow> SearchItem" where
  "boostByActivity activityWeight now item =
     (if (type item = Symbol \<or> type item = Class) \<and> activityScore item \<noteq> None then
        (let timestamp = the (activityScore item);
             r = recencyScore now timestamp;
             boost = 1 + r * activityWeight * 1.5
         in case score item of
              Some s \<Rightarrow> item\<lparr>score := Some (s * boost + r * 0.4)\<rparr>
            | None \<Rightarrow> item)
      else item)"

definition boostItem :: "real \<Rightarrow> (string \<rightharpoonup> real) \<Rightarrow> real \<Rightarrow> SearchItem \<Rightarrow> SearchItem" where
  "boostItem activityWeight recentlyModifiedFiles now item =
     boostByActivity activityWeight now
       (boostByFile activityWeight recentlyModifiedFiles now item)"

text \<open>
  \<open>boostRecentlyModifiedItems\<close>: the loop over \<open>results\<close>, whose elements are distinct
  objects; \<open>now\<close> is read once, before the loop.
\<close>

definition boostRecentlyModifiedItems ::
  "real \<Rightarrow> (string \<rightharpoonup> real) \<Rightarrow> real \<Rightarrow> SearchItem list \<Rightarrow> SearchItem list" where
  "boostRecentlyModifiedItems activityWeight recentlyModifiedFiles now results =
     map (boostItem activityWeight recentlyModifiedFiles now) results"

section \<open>Cache payloads (cache/types.ts) and item serialization\<close>

record ManifestEntry =
  m_uri :: string
  m_mtime :: real

record SerializedFileItem =
  sf_id :: string
  sf_label :: string
  sf_description :: string
  sf_detail :: string
  sf_type :: string
  sf_uri :: string

text \<open>
  A serialized symbol as it is read back from a cache file: \<open>type\<close> is whatever string
  the file holds, and the optional numbers may be missing.
\<close>

record SerializedSymbolItem =
  ss_id :: string
  ss_label :: string
  ss_description :: string
  ss_detail :: string
  ss_type :: string
  ss_uri :: string
  ss_range :: Range
  ss_symbolKind :: "nat option"
  ss_symbolGroup :: "nat option"
  ss_priority :: "real option"

definition CACHE_VERSION :: real where
  "CACHE_VERSION = 1"

subsection \<open>File items (providers/file-provider.ts)\<close>

text \<open>\<open>s.split(sep).pop()\<close>: what follows the last separator, the whole string if none.\<close>

definition lastSegment :: "(char \<Rightarrow> bool) \<Rightarrow> string \<Rightarrow> string" where
  "lastSegment sep s = rev (takeWhile (\<lambda>c. \<not> sep c) (rev s))"

text \<open>The separators of \<open>/[\/\\]/\<close>: slash and backslash.\<close>

definition isPathSeparator :: "char \<Rightarrow> bool" where
  "isPathSeparator c = (c = CHR ''/'' \<or> c = CHR 0x5C)"

text \<open>\<open>toLowerCase\<close> on code units below 256: A-Z and the Latin-1 capitals.\<close>

definition toLowerChar :: "char \<Rightarrow> char" where
  "toLowerChar c =
     (let n = (of_char c :: nat) in
      if (65 \<le> n \<and> n \<le> 90) \<or> (192 \<le> n \<and> n \<le> 222 \<and> n \<noteq> 215) then char_of (n + 32) else c)"

definition toLowerCase :: "string \<Rightarrow> string" where
  "toLowerCase s = map toLowerChar s"

definition getFileIcon :: "string \<Rightarrow> string" where
  "getFileIcon fileName =
     (let extension = toLowerCase (lastSegment (\<lambda>c. c = CHR ''.'') fileName) in
      if extension \<in> set [''js'', ''jsx'', ''ts'', ''tsx''] then ''file-code''
      else if extension = ''json'' then ''file-json''
      else if extension = ''md'' then ''markdown''
      else if extension \<in> set [''html'', ''htm''] then ''html''
      else if extension \<in> set [''css'', ''scss'', ''sass'', ''less''] then ''file-css''
      else if extension = ''xml'' then ''file-xml''
      else if extension = ''py'' then ''python''
      else if extension = ''cs'' then ''c-sharp''
      else if extension = ''java'' then ''java''
      else if extension \<in> set [''c'', ''cpp'', ''h'', ''hpp'', ''php'', ''go'', ''rb'', ''rust'', ''rs'']
        then ''file-code''
      else if extension \<in> set [''sh'', ''bash''] then ''terminal''
      else if extension \<in> set [''yaml'', ''yml''] then ''file-yaml''
      else if extension \<in> set [''toml'', ''sql''] then ''file-text''
      else if extension = ''ps1'' then ''terminal-powershell''
      else if extension \<in> set [''git'', ''gitignore'', ''gitattributes''] then ''git''
      else ''file'')"

text \<open>
  \<open>serializeFileItem\<close> reads \<open>item.uri.toString()\<close>, a TypeError (\<open>None\<close>) on an item
  without \<open>uri\<close>.
\<close>

definition serializeFileItem :: "SearchItem \<Rightarrow> SerializedFileItem option" where
  "serializeFileItem item =
     (case uri item of
        None \<Rightarrow> None
      | Some u \<Rightarrow>
          Some \<lparr>sf_id = id' item, sf_label = label item, sf_description = description item,
                sf_detail = detail item, sf_type = ''file'', sf_uri = u\<rparr>)"

text \<open>\<open>fsPath\<close> is the editor's mapping from a Uri to its file-system path.\<close>

definition deserializeFileItem :: "(string \<Rightarrow> string) \<Rightarrow> SerializedFileItem \<Rightarrow> SearchItem" where
  "deserializeFileItem fsPath s =
     (let u = sf_uri s;
          fileName = lastSegment isPathSeparator (fsPath u)
      in \<lparr>id' = sf_id s, label = sf_label s, description = sf_description s,
           detail = sf_detail s, type = File, iconPath = Some (getFileIcon fileName),
           action = ShowTextDocument u, score = None, activityScore = None, priority = None,
           uri = Some u, relativePath = None, command = None, args = None, range' = None,
           symbolKind = None, symbolGroup = None, lineText = None, matchText = None\<rparr>)"

subsection \<open>Symbol items (providers/document-symbol-provider.ts, providers/symbol-provider.ts)\<close>

text \<open>
  \<open>getSymbolIcon\<close> switches on \<open>vscode.SymbolKind\<close>, whose members are the numbers 0
  (File) to 25 (TypeParameter) in the order of the table; any other value, or none,
  gets the default icon.
\<close>

definition symbolIcons :: "string list" where
  "symbolIcons =
     [''file'', ''package'', ''symbol-namespace'', ''package'', ''symbol-class'',
      ''symbol-method'', ''symbol-property'', ''symbol-field'', ''symbol-constructor'',
      ''symbol-enum'', ''symbol-interface'', ''symbol-method'', ''symbol-variable'',
      ''symbol-constant'', ''symbol-string'', ''symbol-numeric'', ''symbol-boolean'',
      ''symbol-array'', ''symbol-object'', ''symbol-key'', ''symbol-null'',
      ''symbol-enum-member'', ''symbol-struct'', ''symbol-event'', ''symbol-operator'',
      ''symbol-parameter'']"

definition getSymbolIcon :: "nat option \<Rightarrow> string" where
  "getSymbolIcon kind =
     (case kind of
        Some k \<Rightarrow> (if k < length symbolIcons then symbolIcons ! k else ''symbol-misc'')
      | None \<Rightarrow> ''symbol-misc'')"

text \<open>
  \<open>new vscode.Range(startLine, startCharacter, endLine, endCharacter)\<close>: the editor's
  constructor swaps the two positions when the start is after the end.
\<close>

definition isBeforeOrEqual :: "Position \<Rightarrow> Position \<Rightarrow> bool" where
  "isBeforeOrEqual p q = (line p < line q \<or> (line p = line q \<and> character p \<le> character q))"

definition newRange :: "nat \<Rightarrow> nat \<Rightarrow> nat \<Rightarrow> nat \<Rightarrow> Range" where
  "newRange startLine startCharacter endLine endCharacter =
     (let s = \<lparr>line = startLine, character = startCharacter\<rparr>;
          e = \<lparr>line = endLine, character = endCharacter\<rparr>
      in if isBeforeOrEqual s e then \<lparr>start = s, endp = e\<rparr> else \<lparr>start = e, endp = s\<rparr>)"

text \<open>
  \<open>serializeSymbolItem\<close> is the same function in both symbol providers; it reads
  \<open>item.uri.toString()\<close> and \<open>item.range.start\<close>, a TypeError (\<open>None\<close>) without them.
\<close>

definition serializeSymbolItem :: "SearchItem \<Rightarrow> SerializedSymbolItem option" where
  "serializeSymbolItem item =
     (case uri item of
        None \<Rightarrow> None
      | Some u \<Rightarrow>
         (case range' item of
            None \<Rightarrow> None
          | Some r \<Rightarrow>
              Some \<lparr>ss_id = id' item, ss_label = label item, ss_description = description item,
                    ss_detail = detail item, ss_type = type item, ss_uri = u,
                    ss_range = \<lparr>start = \<lparr>line = line (start r), character = character (start r)\<rparr>,
                                endp = \<lparr>line = line (endp r), character = character (endp r)\<rparr>\<rparr>,
                    ss_symbolKind = symbolKind item, ss_symbolGroup = symbolGroup item,
                    ss_priority = priority item\<rparr>))"

text \<open>Everything of a deserialized symbol but its \<open>type\<close>, which the two providers set differently.\<close>

definition symbolItemOf :: "SearchItemType \<Rightarrow> SerializedSymbolItem \<Rightarrow> SearchItem" where
  "symbolItemOf ty s =
     (let u = ss_uri s;
          r = newRange (line (start (ss_range s))) (character (start (ss_range s)))
                       (line (endp (ss_range s))) (character (endp (ss_range s)))
      in \<lparr>id' = ss_id s, label = ss_label s, description = ss_description s,
           detail = ss_detail s, type = ty, iconPath = Some (getSymbolIcon (ss_symbolKind s)),
           action = RevealRange u r, score = None, activityScore = None,
           priority = ss_priority s, uri = Some u, relativePath = None, command = None,
           args = None, range' = Some r, symbolKind = ss_symbolKind s,
           symbolGroup = ss_symbolGroup s, lineText = None, matchText = None\<rparr>)"

text \<open>
  \<open>DocumentSymbolProvider.deserializeSymbolItem\<close>:
  \<open>const type = s.type === 'class' ? SearchItemType.Class : SearchItemType.Symbol\<close>.
\<close>

definition deserializeSymbolItem :: "SerializedSymbolItem \<Rightarrow> SearchItem" where
  "deserializeSymbolItem s = symbolItemOf (if ss_type s = ''class'' then Class else Symbol) s"

text \<open>\<open>SymbolSearchProvider.deserializeSymbolItem\<close>: \<open>type: s.type as SymbolSearchItem['type']\<close>.\<close>

definition deserializeWorkspaceSymbolItem :: "SerializedSymbolItem \<Rightarrow> SearchItem" where
  "deserializeWorkspaceSymbolItem s = symbolItemOf (ss_type s) s"

section \<open>Fuzzy searcher adapters (search/fuzzysort-adapter.ts, search/fuzzaldrin-adapter.ts)\<close>

text \<open>
  \<open>String.prototype.trim\<close> removes white space and line terminators at both ends; among
  the code units below 256 these are tab, line feed, vertical tab, form feed, carriage
  return, space and no-break space.
\<close>

definition isWhiteSpace :: "char \<Rightarrow> bool" where
  "isWhiteSpace c = ((of_char c :: nat) \<in> set [9, 10, 11, 12, 13, 32, 160])"

definition trim :: "string \<Rightarrow> string" where
  "trim s = rev (dropWhile isWhiteSpace (rev (dropWhile isWhiteSpace s)))"

definition MAX_SAFE_INTEGER :: int where
  "MAX_SAFE_INTEGER = 2 ^ 53 - 1"

text \<open>
  \<open>xs.slice(0, end)\<close>: a negative \<open>end\<close> counts from the end of the array, and the result
  never reaches past either end.
\<close>

definition slice0 :: "'a list \<Rightarrow> int \<Rightarrow> 'a list" where
  "slice0 xs e =
     (let len = int (length xs);
          final = (if e < 0 then max (len + e) 0 else min e len)
      in take (nat final) xs)"

text \<open>\<open>`${item.label} ${item.description || ''} ${item.detail || ''}`\<close>\<close>

definition searchText :: "SearchItem \<Rightarrow> string" where
  "searchText item = label item @ '' '' @ description item @ '' '' @ detail item"

text \<open>
  \<open>item.score = ...\<close> on the objects the library returns. The items are objects shared
  between the input array and the result, so the array is the store: a result refers to
  an item by its index, and the scores are written in the order of the results.
\<close>

definition setScores :: "(nat \<times> real) list \<Rightarrow> SearchItem list \<Rightarrow> SearchItem list" where
  "setScores scored items =
     foldl (\<lambda>its (i, sc). its[i := (its ! i)\<lparr>score := Some sc\<rparr>]) items scored"

text \<open>
  \<open>FuzzysortAdapter.search\<close>. The library call \<open>fuzzysort.go(query, targets, {key, limit})\<close>
  is the parameter \<open>go\<close>: it returns, best first, the index and raw score of each target
  it matched. The result is the returned array and the input array after the call.
\<close>

definition fuzzysortSearch ::
  "(string \<Rightarrow> string list \<Rightarrow> int option \<Rightarrow> (nat \<times> real) list)
     \<Rightarrow> SearchItem list \<Rightarrow> string \<Rightarrow> int option \<Rightarrow> SearchItem list \<times> SearchItem list" where
  "fuzzysortSearch go items query limit =
     (let effectiveLimit = (case limit of Some l \<Rightarrow> l | None \<Rightarrow> MAX_SAFE_INTEGER) in
      if trim query = [] then (slice0 items effectiveLimit, items)
      else
        (let targets = map searchText items;
             goLimit = (if effectiveLimit = MAX_SAFE_INTEGER then None else Some (effectiveLimit * 2));
             results = filter (\<lambda>(i, sc). i < length items) (go query targets goLimit);
             scored = map (\<lambda>(i, sc). (i, max 0 (1000 + sc) / 1000)) results;
             items' = setScores scored items;
             foundItems = map (\<lambda>(i, sc). items' ! i) scored
         in (slice0 foundItems effectiveLimit, items')))"

text \<open>
  \<open>FuzzaldrinAdapter.search\<close>. \<open>fuzzaldrinPlus.filter\<close> is the parameter \<open>filterLib\<close>
  (the indices of the candidates it keeps, best first) and \<open>fuzzaldrinPlus.score\<close> the
  parameter \<open>scoreLib\<close>.
\<close>

definition fuzzaldrinSearch ::
  "(string list \<Rightarrow> string \<Rightarrow> int option \<Rightarrow> nat list) \<Rightarrow> (string \<Rightarrow> string \<Rightarrow> real)
     \<Rightarrow> SearchItem list \<Rightarrow> string \<Rightarrow> int option \<Rightarrow> SearchItem list \<times> SearchItem list" where
  "fuzzaldrinSearch filterLib scoreLib items query limit =
     (let effectiveLimit = (case limit of Some l \<Rightarrow> l | None \<Rightarrow> MAX_SAFE_INTEGER) in
      if trim query = [] then (slice0 items effectiveLimit, items)
      else
        (let searchableItems = map searchText items;
             maxResults = (if effectiveLimit \<noteq> MAX_SAFE_INTEGER then Some (effectiveLimit * 2) else None);
             results = filter (\<lambda>i. i < length items) (filterLib searchableItems query maxResults);
             scored = map (\<lambda>i. (i, scoreLib (searchableItems ! i) query / 100)) results;
             items' = setScores scored items;
             foundItems = map (\<lambda>(i, sc). items' ! i) scored
         in (slice0 foundItems effectiveLimit, items')))"

section \<open>Loading the provider caches\<close>

text \<open>
  What \<open>readCache\<close> decoded is an \<open>option\<close>: \<open>None\<close> when there is no storage, no file,
  or the file does not decode.
\<close>

record FileIndexCache =
  fi_version :: real
  fi_workspaceFingerprint :: string
  fi_manifest :: "ManifestEntry list"
  fi_items :: "SerializedFileItem list"

record WorkspaceSymbolsCache =
  ws_version :: real
  ws_workspaceFingerprint :: string
  ws_manifest :: "ManifestEntry list"
  ws_items :: "SerializedSymbolItem list"

record DocumentSymbolsFileEntry =
  de_mtime :: real
  de_symbols :: "SerializedSymbolItem list"

record DocumentSymbolsCache =
  ds_version :: real
  ds_workspaceFingerprint :: string
  ds_files :: "string \<rightharpoonup> DocumentSymbolsFileEntry"

text \<open>\<open>new Map(pairs)\<close>: a later pair replaces an earlier one with the same key.\<close>

definition jsMap :: "('k \<times> 'v) list \<Rightarrow> ('k \<rightharpoonup> 'v)" where
  "jsMap pairs = map_of (rev pairs)"

definition startsWith :: "string \<Rightarrow> string \<Rightarrow> bool" where
  "startsWith s p = (take (length p) s = p)"

subsection \<open>File index (providers/file-provider.ts)\<close>

text \<open>The item \<open>processFileBatch\<close> builds for one file of a workspace folder.\<close>

definition fileItemOf :: "(string \<Rightarrow> string) \<Rightarrow> string \<Rightarrow> string \<Rightarrow> SearchItem" where
  "fileItemOf fsPath workspaceFolder u =
     (let workspacePath = fsPath workspaceFolder;
          relativePath =
            (if startsWith (fsPath u) workspacePath then
               (let rel = drop (length workspacePath) (fsPath u) in
                if startsWith rel ''/'' \<or> startsWith rel [CHR 0x5C] then drop 1 rel else rel)
             else fsPath u);
          fileName = lastSegment isPathSeparator (fsPath u)
      in \<lparr>id' = ''file:'' @ u, label = fileName, description = relativePath,
           detail = fsPath u, type = File, iconPath = Some (getFileIcon fileName),
           action = ShowTextDocument u, score = None, activityScore = None, priority = None,
           uri = Some u, relativePath = None, command = None, args = None, range' = None,
           symbolKind = None, symbolGroup = None, lineText = None, matchText = None\<rparr>)"

definition processFileBatch ::
  "(string \<Rightarrow> string) \<Rightarrow> SearchItem list \<Rightarrow> string list \<Rightarrow> string \<Rightarrow> SearchItem list" where
  "processFileBatch fsPath fileItems files workspaceFolder =
     fileItems @ map (fileItemOf fsPath workspaceFolder) files"

text \<open>
  \<open>groupUrisByFolder\<close>: each uri goes to the first workspace folder whose uri is a prefix
  of it, and is dropped when there is none; the folders come in the order of their
  first file. \<open>groupUri\<close> is the body of its loop.
\<close>

definition groupUri :: "string list \<Rightarrow> (string \<times> string list) list \<Rightarrow> string \<Rightarrow> (string \<times> string list) list" where
  "groupUri folders m u =
     (case find (\<lambda>f. startsWith u f) folders of
        None \<Rightarrow> m
      | Some folder \<Rightarrow>
          (case map_of m folder of
             None \<Rightarrow> m @ [(folder, [u])]
           | Some l \<Rightarrow> map (\<lambda>(g, l'). if g = folder then (g, l' @ [u]) else (g, l')) m))"

definition groupUrisByFolder :: "string list \<Rightarrow> string list \<Rightarrow> (string \<times> string list) list" where
  "groupUrisByFolder folders uris = foldl (groupUri folders) [] uris"

text \<open>
  The loop of \<open>refreshFromCacheOrFull\<close> over the current files: a file whose cached mtime
  is the current one and that has a cached item is reused, any other file is indexed.
\<close>

definition partitionEntry ::
  "(string \<Rightarrow> string) \<Rightarrow> (string \<rightharpoonup> real) \<Rightarrow> (string \<rightharpoonup> SerializedFileItem)
     \<Rightarrow> SearchItem list \<times> string list \<Rightarrow> string \<times> real \<Rightarrow> SearchItem list \<times> string list" where
  "partitionEntry fsPath cachedMtimeByUri cachedItemByUri acc e =
     (let unchanged = fst acc; toIndex = snd acc; uriStr = fst e; mtime = snd e in
      case cachedMtimeByUri uriStr of
        Some cachedMtime \<Rightarrow>
          (if cachedMtime = mtime then
             (case cachedItemByUri uriStr of
                Some serialized \<Rightarrow> (unchanged @ [deserializeFileItem fsPath serialized], toIndex)
              | None \<Rightarrow> (unchanged, toIndex @ [uriStr]))
           else (unchanged, toIndex @ [uriStr]))
      | None \<Rightarrow> (unchanged, toIndex @ [uriStr]))"

record FileRefresh =
  fr_fileItems :: "SearchItem list"
  fr_unchanged :: "SearchItem list"
  fr_toIndex :: "string list"

text \<open>
  \<open>FileSearchProvider.refreshFromCacheOrFull\<close>. \<open>currentEntries\<close> is what \<open>findFiles\<close>
  and \<open>stat\<close> report now (uri and mtime, 0 when \<open>stat\<close> fails). \<open>None\<close> is \<open>return false\<close>
  (the caller then runs \<open>fullRefresh\<close>); otherwise the result holds \<open>this.fileItems\<close>
  and the two lists the loop built. \<open>sortFn\<close> is the engine's \<open>Array.prototype.sort\<close>.
\<close>

definition fileRefreshFromCacheOrFull ::
  "((SearchItem \<Rightarrow> SearchItem \<Rightarrow> jsnum) \<Rightarrow> SearchItem list \<Rightarrow> SearchItem list)
     \<Rightarrow> (string \<Rightarrow> string) \<Rightarrow> string list \<Rightarrow> FileIndexCache option \<Rightarrow> string
     \<Rightarrow> (string \<times> real) list \<Rightarrow> FileRefresh option" where
  "fileRefreshFromCacheOrFull sortFn fsPath folders cache fingerprint currentEntries =
     (case cache of
        None \<Rightarrow> None
      | Some c \<Rightarrow>
          if fi_version c \<noteq> CACHE_VERSION \<or> fi_workspaceFingerprint c \<noteq> fingerprint then None
          else
            (let cachedMtimeByUri = jsMap (map (\<lambda>e. (m_uri e, m_mtime e)) (fi_manifest c));
                 cachedItemByUri = jsMap (map (\<lambda>i. (sf_uri i, i)) (fi_items c));
                 parts = foldl (partitionEntry fsPath cachedMtimeByUri cachedItemByUri) ([], [])
                           currentEntries;
                 unchanged = fst parts;
                 toIndex = snd parts;
                 indexed = foldl (\<lambda>items (folder, uris). processFileBatch fsPath items uris folder)
                             unchanged (groupUrisByFolder folders toIndex);
                 mtimeMap = jsMap currentEntries;
                 mtimeOf = (\<lambda>x. case mtimeMap (the (uri x)) of Some m \<Rightarrow> m | None \<Rightarrow> 0)
             in Some \<lparr>fr_fileItems = sortFn (\<lambda>a b. Fin (mtimeOf b - mtimeOf a)) indexed,
                      fr_unchanged = unchanged, fr_toIndex = toIndex\<rparr>))"

subsection \<open>Workspace symbols (providers/symbol-provider.ts)\<close>

text \<open>
  \<open>SymbolSearchProvider.tryLoadFromCache\<close>. \<open>currentManifest\<close> is what
  \<open>getSourceFileManifest\<close> reports now. \<open>None\<close> is \<open>return false\<close>; otherwise the result is
  \<open>this.symbolItems\<close>.
\<close>

definition tryLoadFromCache ::
  "WorkspaceSymbolsCache option \<Rightarrow> string \<Rightarrow> ManifestEntry list \<Rightarrow> SearchItem list option" where
  "tryLoadFromCache cache fingerprint currentManifest =
     (case cache of
        None \<Rightarrow> None
      | Some c \<Rightarrow>
          if ws_version c \<noteq> CACHE_VERSION \<or> ws_workspaceFingerprint c \<noteq> fingerprint then None
          else
            (let cachedManifest = ws_manifest c in
             if length currentManifest \<noteq> length cachedManifest then None
             else
               (let cachedMtimeByUri = jsMap (map (\<lambda>e. (m_uri e, m_mtime e)) cachedManifest) in
                if list_ex (\<lambda>e. cachedMtimeByUri (m_uri e) \<noteq> Some (m_mtime e)) currentManifest
                then None
                else Some (map deserializeWorkspaceSymbolItem (ws_items c)))))"

text \<open>
  The body of \<open>runRefreshInternal\<close>: the items after the refresh. \<open>fullRefreshItems\<close> is
  what \<open>fullRefresh\<close> would index by querying the editor for every symbol.
\<close>

definition runRefreshInternal ::
  "bool \<Rightarrow> bool \<Rightarrow> WorkspaceSymbolsCache option \<Rightarrow> string \<Rightarrow> ManifestEntry list
     \<Rightarrow> SearchItem list \<Rightarrow> SearchItem list" where
  "runRefreshInternal force hasStorage cache fingerprint currentManifest fullRefreshItems =
     (if force \<or> \<not> hasStorage then fullRefreshItems
      else (case tryLoadFromCache cache fingerprint currentManifest of
              Some symbolItems \<Rightarrow> symbolItems
            | None \<Rightarrow> fullRefreshItems))"

subsection \<open>Document symbols (providers/document-symbol-provider.ts)\<close>

text \<open>
  The first loop of \<open>refreshFromCacheOrFull\<close>: a file whose cache entry has the current
  mtime contributes its cached symbols, any other file is queued.
\<close>

definition docPartitionEntry ::
  "(string \<rightharpoonup> DocumentSymbolsFileEntry) \<Rightarrow> SearchItem list \<times> nat \<times> (string \<times> real) list
     \<Rightarrow> string \<times> real \<Rightarrow> SearchItem list \<times> nat \<times> (string \<times> real) list" where
  "docPartitionEntry cachedFiles acc e =
     (let symbolItems = fst acc; fromCache = fst (snd acc); toIndex = snd (snd acc);
          uriStr = fst e; mtime = snd e in
      case cachedFiles uriStr of
        Some entry \<Rightarrow>
          (if de_mtime entry = mtime
           then (symbolItems @ map deserializeSymbolItem (de_symbols entry), fromCache + 1, toIndex)
           else (symbolItems, fromCache, toIndex @ [(uriStr, mtime)]))
      | None \<Rightarrow> (symbolItems, fromCache, toIndex @ [(uriStr, mtime)]))"

text \<open>\<open>for (i = 0; i < xs.length; i += n) xs.slice(i, i + n)\<close>\<close>

function chunks :: "nat \<Rightarrow> 'a list \<Rightarrow> 'a list list" where
  "chunks n xs = (if n = 0 \<or> xs = [] then [] else take n xs # chunks n (drop n xs))"
  by pat_completeness auto
termination
  by (relation "measure (\<lambda>(n, xs). length xs)") auto

declare chunks.simps [simp del]

text \<open>
  One batch of the second loop. \<open>indexFile\<close> stands for the query to the editor followed
  by \<open>processSymbols\<close>: the symbols of one file, none when the query fails or finds
  nothing. The second component collects what is handed to \<open>onBatch\<close>.
\<close>

definition indexBatch ::
  "(string \<Rightarrow> bool) \<Rightarrow> (string \<Rightarrow> SearchItem list) \<Rightarrow> SearchItem list \<times> SearchItem list list
     \<Rightarrow> (string \<times> real) list \<Rightarrow> SearchItem list \<times> SearchItem list list" where
  "indexBatch shouldExclude indexFile acc batch =
     (let symbolItems = fst acc; batches = snd acc;
          countBefore = length symbolItems;
          symbolItems' = foldl (\<lambda>items e. if shouldExclude (fst e) then items
                                           else items @ indexFile (fst e)) symbolItems batch
      in (symbolItems',
          if length symbolItems' > countBefore then batches @ [drop countBefore symbolItems']
          else batches))"

record DocRefresh =
  dr_symbolItems :: "SearchItem list"
  dr_fromCache :: nat
  dr_toIndex :: "(string \<times> real) list"
  dr_batches :: "SearchItem list list"

text \<open>
  \<open>DocumentSymbolProvider.refreshFromCacheOrFull\<close>. \<open>currentEntries\<close> is what
  \<open>getSourceFileEntries\<close> reports now. \<open>None\<close> is \<open>return false\<close>.
\<close>

definition docRefreshFromCacheOrFull ::
  "(string \<Rightarrow> bool) \<Rightarrow> (string \<Rightarrow> SearchItem list) \<Rightarrow> DocumentSymbolsCache option \<Rightarrow> string
     \<Rightarrow> (string \<times> real) list \<Rightarrow> DocRefresh option" where
  "docRefreshFromCacheOrFull shouldExclude indexFile cache fingerprint currentEntries =
     (case cache of
        None \<Rightarrow> None
      | Some c \<Rightarrow>
          if ds_version c \<noteq> CACHE_VERSION \<or> ds_workspaceFingerprint c \<noteq> fingerprint then None
          else
            (let parts = foldl (docPartitionEntry (ds_files c)) ([], 0, []) currentEntries;
                 toIndex = snd (snd parts);
                 done = foldl (indexBatch shouldExclude indexFile) (fst parts, [])
                          (chunks 20 toIndex)
             in Some \<lparr>dr_symbolItems = fst done, dr_fromCache = fst (snd parts),
                      dr_toIndex = toIndex, dr_batches = snd done\<rparr>))"

section \<open>The shared refresh of the coordinator (core/search-service.ts, refreshIndex)\<close>

text \<open>
  \<open>refreshIndex\<close> is an async function on one thread: a call runs until it reaches an
  \<open>await\<close>, and continues when the promise it awaits has settled. All continuations
  waiting for one promise run in the order in which they started to wait, before
  anything else of the program runs. The state is the field \<open>refreshPromise\<close>, the
  executions of \<open>doRefresh\<close> that have started and not finished (each known by the number
  of its promise), and the calls suspended at an \<open>await\<close>.

  A call is suspended at one of three places:
  \<^item> \<open>AwaitInFlight\<close>: \<open>await this.refreshPromise; return\<close> of a call that is not forced;
  \<^item> \<open>AwaitBeforeForced\<close>: \<open>await this.refreshPromise; this.refreshPromise = null\<close> of a
    forced call, which then goes on to start a refresh;
  \<^item> \<open>AwaitOwn\<close>: \<open>await this.refreshPromise\<close> inside \<open>try\<close>, of the call that started
    the refresh, with \<open>this.refreshPromise = null\<close> in \<open>finally\<close>.
\<close>

datatype AwaitPoint = AwaitInFlight | AwaitBeforeForced | AwaitOwn

record Service =
  refreshPromise :: "nat option"
  nextPromise :: nat
  running :: "nat list"
  waiting :: "(nat \<times> AwaitPoint \<times> nat) list"
  nextCall :: nat
  returned :: "nat list"
  passes :: nat

definition initialService :: Service where
  "initialService = \<lparr>refreshPromise = None, nextPromise = 0, running = [], waiting = [],
     nextCall = 0, returned = [], passes = 0\<rparr>"

text \<open>
  \<open>this.refreshPromise = doRefresh(); await this.refreshPromise\<close> by call \<open>c\<close>:
  \<open>doRefresh\<close> starts (one more full pass over the providers) and runs up to its first
  \<open>await\<close>; its promise is stored, and the call waits for it.
\<close>

definition startRefresh :: "nat \<Rightarrow> Service \<Rightarrow> Service" where
  "startRefresh c s =
     s\<lparr>refreshPromise := Some (nextPromise s),
       running := running s @ [nextPromise s],
       passes := passes s + 1,
       waiting := waiting s @ [(c, AwaitOwn, nextPromise s)],
       nextPromise := nextPromise s + 1\<rparr>"

text \<open>A new call \<open>refreshIndex(force)\<close>, up to its first \<open>await\<close>.\<close>

definition callRefreshIndex :: "bool \<Rightarrow> Service \<Rightarrow> Service" where
  "callRefreshIndex force s =
     (let c = nextCall s; s1 = s\<lparr>nextCall := c + 1\<rparr> in
      case refreshPromise s1 of
        Some p \<Rightarrow>
          (if \<not> force then s1\<lparr>waiting := waiting s1 @ [(c, AwaitInFlight, p)]\<rparr>
           else s1\<lparr>waiting := waiting s1 @ [(c, AwaitBeforeForced, p)]\<rparr>)
      | None \<Rightarrow> startRefresh c s1)"

text \<open>The continuation of a suspended call, once the promise it awaits has settled.\<close>

definition resume :: "Service \<Rightarrow> nat \<times> AwaitPoint \<times> nat \<Rightarrow> Service" where
  "resume s w =
     (case w of (c, point, p) \<Rightarrow>
        (case point of
           AwaitInFlight \<Rightarrow> s\<lparr>returned := returned s @ [c]\<rparr>
         | AwaitBeforeForced \<Rightarrow> startRefresh c (s\<lparr>refreshPromise := None\<rparr>)
         | AwaitOwn \<Rightarrow> s\<lparr>refreshPromise := None, returned := returned s @ [c]\<rparr>))"

text \<open>
  The refresh with promise \<open>p\<close> finishes: it is no longer running, and the calls
  waiting for \<open>p\<close> continue one after the other, first come first.
\<close>

definition settle :: "nat \<Rightarrow> Service \<Rightarrow> Service" where
  "settle p s =
     (if p \<in> set (running s) then
        foldl resume
          (s\<lparr>running := filter (\<lambda>q. q \<noteq> p) (running s),
             waiting := filter (\<lambda>w. snd (snd w) \<noteq> p) (waiting s)\<rparr>)
          (filter (\<lambda>w. snd (snd w) = p) (waiting s))
      else s)"

datatype Event = Call bool | Settle nat

fun step :: "Service \<Rightarrow> Event \<Rightarrow> Service" where
  "step s (Call force) = callRefreshIndex force s"
| "step s (Settle p) = settle p s"

definition run :: "Event list \<Rightarrow> Service" where
  "run events = foldl step initialService events"

section \<open>Notions used in the statements\<close>


text \<open>
  The shape of a \<open>FileSearchItem\<close> and of a \<open>SymbolSearchItem\<close>: the tag, the fields the
  interface requires, none of the fields of the other variants; the range as the editor
  builds it, its start not after its end.
\<close>

definition isFileSearchItem :: "SearchItem \<Rightarrow> bool" where
  "isFileSearchItem item =
     (type item = File \<and> uri item \<noteq> None \<and> command item = None \<and> args item = None
      \<and> range' item = None \<and> symbolKind item = None \<and> symbolGroup item = None
      \<and> lineText item = None \<and> matchText item = None)"

definition isSymbolSearchItem :: "SearchItem \<Rightarrow> bool" where
  "isSymbolSearchItem item =
     ((type item = Symbol \<or> type item = Class) \<and> uri item \<noteq> None \<and> range' item \<noteq> None
      \<and> isBeforeOrEqual (start (the (range' item))) (endp (the (range' item)))
      \<and> relativePath item = None \<and> command item = None \<and> args item = None
      \<and> lineText item = None \<and> matchText item = None)"

text \<open>
  The maps the loaders build from a cache, and what it means for a current file to be
  fresh in it: the cache recorded the file with the mtime it has now.
\<close>

definition fileCachedMtime :: "FileIndexCache \<Rightarrow> (string \<rightharpoonup> real)" where
  "fileCachedMtime c = jsMap (map (\<lambda>e. (m_uri e, m_mtime e)) (fi_manifest c))"

definition fileCachedItem :: "FileIndexCache \<Rightarrow> (string \<rightharpoonup> SerializedFileItem)" where
  "fileCachedItem c = jsMap (map (\<lambda>i. (sf_uri i, i)) (fi_items c))"

definition fileFresh :: "FileIndexCache \<Rightarrow> string \<times> real \<Rightarrow> bool" where
  "fileFresh c e = (fileCachedMtime c (fst e) = Some (snd e) \<and> fileCachedItem c (fst e) \<noteq> None)"

definition symbolCachedMtime :: "WorkspaceSymbolsCache \<Rightarrow> (string \<rightharpoonup> real)" where
  "symbolCachedMtime c = jsMap (map (\<lambda>e. (m_uri e, m_mtime e)) (ws_manifest c))"

definition docFresh :: "DocumentSymbolsCache \<Rightarrow> string \<times> real \<Rightarrow> bool" where
  "docFresh c e = (case ds_files c (fst e) of Some entry \<Rightarrow> de_mtime entry = snd e | None \<Rightarrow> False)"

definition docCachedSymbols :: "DocumentSymbolsCache \<Rightarrow> string \<times> real \<Rightarrow> SearchItem list" where
  "docCachedSymbols c e =
     (case ds_files c (fst e) of
        Some entry \<Rightarrow> map deserializeSymbolItem (de_symbols entry)
      | None \<Rightarrow> [])"

text \<open>
  \<open>a\<close> sorts before \<open>b\<close>: the comparator is negative on \<open>(a, b)\<close> and positive on
  \<open>(b, a)\<close>, so whichever way the sort asks, \<open>a\<close> comes first.
\<close>

definition sortsBefore :: "(real \<Rightarrow> real) \<Rightarrow> SearchItem \<Rightarrow> SearchItem \<Rightarrow> bool" where
  "sortsBefore fl a b = (isNegative (compareItems fl a b) \<and> isPositive (compareItems fl b a))"

text \<open>
  What is used of the rounding of a difference to a double: it is monotone, it commutes
  with the sign, and it leaves the double \<open>SCORE_EPSILON\<close> as it is. Rounding to the
  nearest double has these properties, and so has the identity (no rounding at all).
\<close>

definition isRounding :: "(real \<Rightarrow> real) \<Rightarrow> bool" where
  "isRounding fl = ((\<forall>x y. x \<le> y \<longrightarrow> fl x \<le> fl y) \<and> (\<forall>x. fl (- x) = - fl x)
                     \<and> fl SCORE_EPSILON = SCORE_EPSILON)"

text \<open>
  ECMAScript (\<open>Array.prototype.sort\<close>, SortCompare) promises an order only if the
  comparator is a consistent comparison function for the elements of the array: it
  never gives \<open>NaN\<close>, every element is equal to itself, being equal (result 0) is
  symmetric and transitive, and being before (negative) and being after (positive) are
  transitive. Otherwise the order is implementation-defined.
\<close>

fun isZero :: "jsnum \<Rightarrow> bool" where
  "isZero (Fin x) = (x = 0)"
| "isZero PosInf = False"
| "isZero NegInf = False"
| "isZero NaN = False"

definition consistentComparator :: "('a \<Rightarrow> 'a \<Rightarrow> jsnum) \<Rightarrow> 'a set \<Rightarrow> bool" where
  "consistentComparator cmp S =
     (\<forall>a \<in> S. \<forall>b \<in> S. \<forall>c \<in> S.
        cmp a b \<noteq> NaN
      \<and> isZero (cmp a a)
      \<and> (isZero (cmp a b) \<longrightarrow> isZero (cmp b a))
      \<and> (isZero (cmp a b) \<and> isZero (cmp b c) \<longrightarrow> isZero (cmp a c))
      \<and> (isNegative (cmp a b) \<and> isNegative (cmp b c) \<longrightarrow> isNegative (cmp a c))
      \<and> (isPositive (cmp a b) \<and> isPositive (cmp b c) \<longrightarrow> isPositive (cmp a c)))"

text \<open>
  What ECMAScript promises of every engine's sort, as far as it is used here: the result
  is a rearrangement of the array, and if the comparator is consistent on its elements,
  no element of the result is before one that the comparator puts before it. (The sort
  is also stable, which is not used.)
\<close>

definition conformingSort :: "(('a \<Rightarrow> 'a \<Rightarrow> jsnum) \<Rightarrow> 'a list \<Rightarrow> 'a list) \<Rightarrow> bool" where
  "conformingSort sortFn =
     (\<forall>cmp xs. mset (sortFn cmp xs) = mset xs
        \<and> (consistentComparator cmp (set xs) \<longrightarrow>
             sorted_wrt (\<lambda>a b. \<not> isNegative (cmp b a)) (sortFn cmp xs)))"

text \<open>
  The scores of two items are within the epsilon of each other when the comparator's
  test \<open>Math.abs(scoreA - scoreB) > SCORE_EPSILON\<close> fails: the computed difference is at
  most the epsilon, or both scores are missing (the difference is \<open>NaN\<close>). The score of
  \<open>a\<close> is above the one of \<open>b\<close> when the test succeeds and \<open>a\<close> has the larger score.
\<close>

definition inBand :: "(real \<Rightarrow> real) \<Rightarrow> SearchItem \<Rightarrow> SearchItem \<Rightarrow> bool" where
  "inBand fl a b =
     (case (score a, score b) of
        (Some sa, Some sb) \<Rightarrow> \<bar>fl (sa - sb)\<bar> \<le> SCORE_EPSILON
      | (None, None) \<Rightarrow> True
      | _ \<Rightarrow> False)"

definition scoreAbove :: "(real \<Rightarrow> real) \<Rightarrow> SearchItem \<Rightarrow> SearchItem \<Rightarrow> bool" where
  "scoreAbove fl a b =
     (case (score a, score b) of
        (Some sa, Some sb) \<Rightarrow> SCORE_EPSILON < fl (sa - sb)
      | (Some sa, None) \<Rightarrow> True
      | _ \<Rightarrow> False)"

text \<open>
  Being within the epsilon is transitive on the items of a set that the comparator
  ranks by score and priority (those with the same \<open>activityScore\<close>, or none). It is not
  so in general: 0.5 is within the epsilon of 0.5000000008, and that of 0.5000000016,
  which is not within the epsilon of 0.5.
\<close>

definition bandTransitive :: "(real \<Rightarrow> real) \<Rightarrow> SearchItem set \<Rightarrow> bool" where
  "bandTransitive fl S =
     (\<forall>a \<in> S. \<forall>b \<in> S. \<forall>c \<in> S.
        activityScore a = activityScore b \<and> activityScore b = activityScore c
        \<and> inBand fl a b \<and> inBand fl b c \<longrightarrow> inBand fl a c)"

text \<open>
  The ranking rules in one predicate: \<open>a\<close> has an \<open>activityScore\<close> and \<open>b\<close> has none; or
  both have one and the one of \<open>a\<close> is larger; or they have the same one, or none, and
  the score of \<open>a\<close> is above the one of \<open>b\<close>, or the scores are within the epsilon and
  \<open>a\<close> has the higher priority.
\<close>

definition ranksBefore :: "(real \<Rightarrow> real) \<Rightarrow> SearchItem \<Rightarrow> SearchItem \<Rightarrow> bool" where
  "ranksBefore fl a b =
     (case (activityScore a, activityScore b) of
        (Some ta, None) \<Rightarrow> True
      | (None, Some tb) \<Rightarrow> False
      | _ \<Rightarrow>
          (case (activityScore a, activityScore b) of
             (Some ta, Some tb) \<Rightarrow> tb < ta
           | _ \<Rightarrow> False)
          \<or> (activityScore a = activityScore b
               \<and> (scoreAbove fl a b \<or> (inBand fl a b \<and> priorityOr50 b < priorityOr50 a))))"

text \<open>
  The workspace folder that \<open>groupUrisByFolder\<close> finds for a uri, and the mtime by which
  \<open>refreshFromCacheOrFull\<close> sorts an item: the one \<open>currentEntries\<close> has for its uri, 0 if
  it has none.
\<close>

definition folderOf :: "string list \<Rightarrow> string \<Rightarrow> string option" where
  "folderOf folders u = find (\<lambda>f. startsWith u f) folders"

definition currentMtime :: "(string \<times> real) list \<Rightarrow> SearchItem \<Rightarrow> real" where
  "currentMtime currentEntries x =
     (case jsMap currentEntries (the (uri x)) of Some m \<Rightarrow> m | None \<Rightarrow> 0)"

section \<open>Example inputs\<close>

text \<open>An item with every optional field absent; the examples below update it.\<close>

definition baseItem :: SearchItem where
  "baseItem = \<lparr>id' = [], label = [], description = [], detail = [], type = Symbol,
     iconPath = None, action = OtherAction 0, score = None, activityScore = None,
     priority = None, uri = None, relativePath = None, command = None, args = None,
     range' = None, symbolKind = None, symbolGroup = None, lineText = None, matchText = None\<rparr>"

definition exClass :: SearchItem where
  "exClass = baseItem\<lparr>id' := ''symbol:Foo:file:///a.ts:3:0'', label := ''Foo'', type := Class,
     uri := Some ''file:///a.ts'',
     range' := Some \<lparr>start = \<lparr>line = 3, character = 0\<rparr>, endp = \<lparr>line = 9, character = 1\<rparr>\<rparr>\<rparr>"

definition exSymbol :: SearchItem where
  "exSymbol = exClass\<lparr>type := Symbol\<rparr>"


definition exA :: SearchItem where
  "exA = baseItem\<lparr>label := ''A'', activityScore := Some 1000, score := Some 0.9\<rparr>"

definition exB :: SearchItem where
  "exB = baseItem\<lparr>label := ''B'', activityScore := Some 2000, score := Some 0.1\<rparr>"

definition exC :: SearchItem where
  "exC = baseItem\<lparr>label := ''C'', score := Some 0.99\<rparr>"

definition exHigh :: SearchItem where
  "exHigh = baseItem\<lparr>label := ''high'', score := Some 0.5, priority := Some 100\<rparr>"

definition exLow :: SearchItem where
  "exLow = baseItem\<lparr>label := ''low'', score := Some 0.50000000001, priority := Some 50\<rparr>"

text \<open>
  Items whose scores are chained within the epsilon: \<open>exHigh\<close> (0.5) and \<open>exMid\<close> are
  within it, \<open>exMid\<close> and \<open>exTop\<close> (or \<open>exTopLow\<close>) are, \<open>exHigh\<close> and \<open>exTop\<close> are not.
\<close>

definition exMid :: SearchItem where
  "exMid = baseItem\<lparr>label := ''mid'', score := Some 0.5000000008, priority := Some 50\<rparr>"

definition exTop :: SearchItem where
  "exTop = baseItem\<lparr>label := ''top'', score := Some 0.5000000016, priority := Some 50\<rparr>"

definition exTopLow :: SearchItem where
  "exTopLow = baseItem\<lparr>label := ''top'', score := Some 0.5000000016, priority := Some 10\<rparr>"

definition exNow :: real where
  "exNow = 1700000000000"

definition exFile :: SearchItem where
  "exFile = baseItem\<lparr>label := ''a.ts'', type := File, uri := Some ''file:///a.ts'', score := Some 2\<rparr>"

definition exMethod :: SearchItem where
  "exMethod = baseItem\<lparr>label := ''run'', type := Symbol, uri := Some ''file:///a.ts'',
     score := Some 2, activityScore := Some (exNow - 1800000)\<rparr>"

definition exFsPath :: "string \<Rightarrow> string" where
  "exFsPath u = drop 7 u"

definition exCachedFile :: SearchItem where
  "exCachedFile = baseItem\<lparr>id' := ''file:file:///w/src/a.ts'', label := ''a.ts'',
     description := ''src/a.ts'', detail := ''/w/src/a.ts'', type := File,
     iconPath := Some ''file-code'', action := ShowTextDocument ''file:///w/src/a.ts'',
     score := Some 0.7, activityScore := Some exNow, uri := Some ''file:///w/src/a.ts''\<rparr>"

definition exCachedSymbol :: SearchItem where
  "exCachedSymbol = exClass\<lparr>iconPath := Some ''symbol-class'',
     action := RevealRange ''file:///a.ts''
        \<lparr>start = \<lparr>line = 3, character = 0\<rparr>, endp = \<lparr>line = 9, character = 1\<rparr>\<rparr>,
     score := Some 0.7, activityScore := Some exNow, priority := Some 100,
     symbolKind := Some 4, symbolGroup := Some 0\<rparr>"

definition exCorrupted :: SerializedSymbolItem where
  "exCorrupted = \<lparr>ss_id = ''symbol:run:file:///a.ts:3:0'', ss_label = ''run'', ss_description = ''Method'',
     ss_detail = ''/a.ts'', ss_type = ''file'', ss_uri = ''file:///a.ts'',
     ss_range = \<lparr>start = \<lparr>line = 3, character = 0\<rparr>, endp = \<lparr>line = 9, character = 1\<rparr>\<rparr>,
     ss_symbolKind = Some 5, ss_symbolGroup = Some 1, ss_priority = Some 90\<rparr>"

definition exSerA :: SerializedFileItem where
  "exSerA = \<lparr>sf_id = ''file:file:///w/a.ts'', sf_label = ''a.ts'', sf_description = ''a.ts'',
     sf_detail = ''/w/a.ts'', sf_type = ''file'', sf_uri = ''file:///w/a.ts''\<rparr>"

definition exSerB :: SerializedFileItem where
  "exSerB = \<lparr>sf_id = ''file:file:///w/b.ts'', sf_label = ''b.ts'', sf_description = ''b.ts'',
     sf_detail = ''/w/b.ts'', sf_type = ''file'', sf_uri = ''file:///w/b.ts''\<rparr>"

definition exManifest :: "ManifestEntry list" where
  "exManifest = [\<lparr>m_uri = ''file:///w/a.ts'', m_mtime = 100\<rparr>,
                 \<lparr>m_uri = ''file:///w/b.ts'', m_mtime = 200\<rparr>]"

definition exFileCache :: FileIndexCache where
  "exFileCache = \<lparr>fi_version = 1, fi_workspaceFingerprint = ''file:///w'',
     fi_manifest = exManifest, fi_items = [exSerA, exSerB]\<rparr>"

definition exSymbolCache :: WorkspaceSymbolsCache where
  "exSymbolCache = \<lparr>ws_version = 1, ws_workspaceFingerprint = ''file:///w'',
     ws_manifest = exManifest, ws_items = [exCorrupted\<lparr>ss_type := ''symbol''\<rparr>]\<rparr>"

definition exDocCache :: DocumentSymbolsCache where
  "exDocCache = \<lparr>ds_version = 1, ds_workspaceFingerprint = ''file:///w'',
     ds_files = [''file:///w/a.ts'' \<mapsto> \<lparr>de_mtime = 100, de_symbols = [exCorrupted]\<rparr>,
                 ''file:///w/b.ts'' \<mapsto> \<lparr>de_mtime = 200, de_symbols = []\<rparr>]\<rparr>"

text \<open>The current state of the workspace in the examples: \<open>b.ts\<close> was modified.\<close>

definition exCurrent :: "(string \<times> real) list" where
  "exCurrent = [(''file:///w/a.ts'', 100), (''file:///w/b.ts'', 300)]"

section \<open>Deduplication: one item per key, the first one seen\<close>



















section \<open>The sort\<close>

subsection \<open>What a consistent comparator gives\<close>

lemma cmp_cases:
  assumes "v \<noteq> NaN"
  shows "(isNegative v \<and> \<not> isZero v \<and> \<not> isPositive v)
       \<or> (\<not> isNegative v \<and> isZero v \<and> \<not> isPositive v)
       \<or> (\<not> isNegative v \<and> \<not> isZero v \<and> isPositive v)"
  using assms by (cases v) auto

lemma consistentD:
  assumes "consistentComparator cmp S" "a \<in> S" "b \<in> S" "c \<in> S"
  shows "cmp a b \<noteq> NaN" "isZero (cmp a a)"
    "isZero (cmp a b) \<Longrightarrow> isZero (cmp b a)"
    "isZero (cmp a b) \<Longrightarrow> isZero (cmp b c) \<Longrightarrow> isZero (cmp a c)"
    "isNegative (cmp a b) \<Longrightarrow> isNegative (cmp b c) \<Longrightarrow> isNegative (cmp a c)"
    "isPositive (cmp a b) \<Longrightarrow> isPositive (cmp b c) \<Longrightarrow> isPositive (cmp a c)"
  using assms unfolding consistentComparator_def by blast+

lemma neg_imp_pos:
  assumes c: "consistentComparator cmp S" and ab: "a \<in> S" "b \<in> S" and n: "isNegative (cmp a b)"
  shows "isPositive (cmp b a)"
proof -
  have nn: "cmp b a \<noteq> NaN" "cmp a b \<noteq> NaN" "cmp a a \<noteq> NaN"
    using consistentD(1) [OF c] ab by blast+
  have "\<not> isNegative (cmp b a)"
  proof
    assume "isNegative (cmp b a)"
    with n have "isNegative (cmp a a)" using consistentD(5) [OF c ab(1) ab(2) ab(1)] by blast
    moreover have "isZero (cmp a a)" using consistentD(2) [OF c ab(1) ab(1) ab(1)] .
    ultimately show False using cmp_cases [OF nn(3)] by blast
  qed
  moreover have "\<not> isZero (cmp b a)"
  proof
    assume "isZero (cmp b a)"
    then have "isZero (cmp a b)" using consistentD(3) [OF c ab(2) ab(1) ab(1)] by blast
    with n show False using cmp_cases [OF nn(2)] by blast
  qed
  ultimately show ?thesis using cmp_cases [OF nn(1)] by blast
qed

lemma pos_imp_neg:
  assumes c: "consistentComparator cmp S" and ab: "a \<in> S" "b \<in> S" and n: "isPositive (cmp a b)"
  shows "isNegative (cmp b a)"
proof -
  have nn: "cmp b a \<noteq> NaN" "cmp a b \<noteq> NaN" "cmp a a \<noteq> NaN"
    using consistentD(1) [OF c] ab by blast+
  have "\<not> isPositive (cmp b a)"
  proof
    assume "isPositive (cmp b a)"
    with n have "isPositive (cmp a a)" using consistentD(6) [OF c ab(1) ab(2) ab(1)] by blast
    moreover have "isZero (cmp a a)" using consistentD(2) [OF c ab(1) ab(1) ab(1)] .
    ultimately show False using cmp_cases [OF nn(3)] by blast
  qed
  moreover have "\<not> isZero (cmp b a)"
  proof
    assume "isZero (cmp b a)"
    then have "isZero (cmp a b)" using consistentD(3) [OF c ab(2) ab(1) ab(1)] by blast
    with n show False using cmp_cases [OF nn(2)] by blast
  qed
  ultimately show ?thesis using cmp_cases [OF nn(1)] by blast
qed

text \<open>\<open>a\<close> is before \<open>b\<close>, and \<open>c\<close> is not before \<open>b\<close>: then \<open>a\<close> is before \<open>c\<close>.\<close>

lemma neg_le_trans:
  assumes c: "consistentComparator cmp S" and abc: "a \<in> S" "b \<in> S" "c \<in> S"
    and 1: "isNegative (cmp a b)" and 2: "\<not> isNegative (cmp c b)"
  shows "isNegative (cmp a c)"
proof -
  have nn: "cmp a c \<noteq> NaN" "cmp c b \<noteq> NaN" "cmp b c \<noteq> NaN" "cmp a b \<noteq> NaN"
    using consistentD(1) [OF c] abc by blast+
  from 2 cmp_cases [OF nn(2)] have "isZero (cmp c b) \<or> isPositive (cmp c b)" by blast
  then show ?thesis
  proof
    assume z: "isZero (cmp c b)"
    have "\<not> isZero (cmp a c)"
    proof
      assume "isZero (cmp a c)"
      with z have "isZero (cmp a b)" using consistentD(4) [OF c abc(1) abc(3) abc(2)] by blast
      with 1 show False using cmp_cases [OF nn(4)] by blast
    qed
    moreover have "\<not> isPositive (cmp a c)"
    proof
      assume "isPositive (cmp a c)"
      then have "isNegative (cmp c a)" using pos_imp_neg [OF c abc(1) abc(3)] by blast
      with 1 have "isNegative (cmp c b)" using consistentD(5) [OF c abc(3) abc(1) abc(2)] by blast
      with 2 show False by blast
    qed
    ultimately show ?thesis using cmp_cases [OF nn(1)] by blast
  next
    assume "isPositive (cmp c b)"
    then have "isNegative (cmp b c)" using pos_imp_neg [OF c abc(3) abc(2)] by blast
    with 1 show ?thesis using consistentD(5) [OF c abc(1) abc(2) abc(3)] by blast
  qed
qed

text \<open>Not being before is transitive.\<close>

lemma le_trans:
  assumes c: "consistentComparator cmp S" and abc: "a \<in> S" "b \<in> S" "c \<in> S"
    and 1: "\<not> isNegative (cmp b a)" and 2: "\<not> isNegative (cmp c b)"
  shows "\<not> isNegative (cmp c a)"
proof
  assume "isNegative (cmp c a)"
  with 1 have "isNegative (cmp c b)" using neg_le_trans [OF c abc(3) abc(1) abc(2)] by blast
  with 2 show False by blast
qed

lemma neg_asym:
  assumes c: "consistentComparator cmp S" and ab: "a \<in> S" "b \<in> S" and n: "isNegative (cmp a b)"
  shows "\<not> isNegative (cmp b a)"
proof -
  have "cmp b a \<noteq> NaN" using consistentD(1) [OF c ab(2) ab(1) ab(1)] .
  with neg_imp_pos [OF c ab n] show ?thesis using cmp_cases by blast
qed

subsection \<open>V8's sort of a short array conforms\<close>

lemma runPrefix_append:
  "fst (runPrefix continues previous xs) @ snd (runPrefix continues previous xs) = xs"
  by (induction xs arbitrary: previous) auto

lemma runPrefix_successively:
  "successively (\<lambda>previous current. continues current previous)
     (previous # fst (runPrefix continues previous xs))"
  by (induction xs arbitrary: previous) auto

lemma countAndMakeRun_mset:
  "mset (fst (countAndMakeRun cmp xs)) + mset (snd (countAndMakeRun cmp xs)) = mset xs"
proof (cases xs)
  case Nil
  then show ?thesis by (simp add: countAndMakeRun_def)
next
  case (Cons x0 ys)
  show ?thesis
  proof (cases ys)
    case Nil
    with Cons show ?thesis by (simp add: countAndMakeRun_def)
  next
    case (Cons x1 rest)
    have "mset (fst (runPrefix c x1 rest)) + mset (snd (runPrefix c x1 rest)) = mset rest" for c
      using runPrefix_append [of c x1 rest] by (metis mset_append)
    with Cons \<open>xs = x0 # ys\<close> show ?thesis
      by (simp add: countAndMakeRun_def Let_def)
  qed
qed

lemma insertPivot_mset: "mset (insertPivot cmp ws pivot) = add_mset pivot (mset ws)"
proof -
  have "mset (take n ws) + mset (drop n ws) = mset ws" for n
    by (metis append_take_drop_id mset_append)
  then show ?thesis by (simp add: insertPivot_def Let_def)
qed

lemma binaryInsertionSort_mset:
  "mset (binaryInsertionSort cmp front rest) = mset front + mset rest"
  unfolding binaryInsertionSort_def
  by (induction rest arbitrary: front) (simp_all add: insertPivot_mset)

lemma arraySort_mset: "mset (arraySort cmp xs) = mset xs"
  by (simp add: arraySort_def Let_def binaryInsertionSort_mset countAndMakeRun_mset)

lemma countAndMakeRun_set:
  "set (fst (countAndMakeRun cmp xs)) \<union> set (snd (countAndMakeRun cmp xs)) = set xs"
proof -
  have "set_mset (mset (fst (countAndMakeRun cmp xs)) + mset (snd (countAndMakeRun cmp xs)))
        = set_mset (mset xs)"
    by (simp only: countAndMakeRun_mset)
  then show ?thesis by simp
qed

lemma successively_sorted:
  assumes c: "consistentComparator cmp S" and s: "set ws \<subseteq> S"
    and succ: "successively (\<lambda>a b. \<not> isNegative (cmp b a)) ws"
  shows "sorted_wrt (\<lambda>a b. \<not> isNegative (cmp b a)) ws"
proof -
  have "successively (\<lambda>a b. \<not> isNegative (cmp b a)) ws
        = sorted_wrt (\<lambda>a b. \<not> isNegative (cmp b a)) ws"
  proof (rule successively_iff_sorted_wrt_strong)
    fix x y z
    assume "x \<in> set ws" "y \<in> set ws" "z \<in> set ws"
      and 1: "\<not> isNegative (cmp y x)" and 2: "\<not> isNegative (cmp z y)"
    then have "x \<in> S" "y \<in> S" "z \<in> S" using s by blast+
    then show "\<not> isNegative (cmp z x)" using le_trans [OF c _ _ _ 1 2] by blast
  qed
  with succ show ?thesis by blast
qed

lemma countAndMakeRun_sorted:
  assumes c: "consistentComparator cmp S" and s: "set xs \<subseteq> S"
  shows "sorted_wrt (\<lambda>a b. \<not> isNegative (cmp b a)) (fst (countAndMakeRun cmp xs))"
proof (cases xs)
  case Nil
  then show ?thesis by (simp add: countAndMakeRun_def)
next
  case (Cons x0 ys)
  note xs = this
  show ?thesis
  proof (cases ys)
    case Nil
    with xs show ?thesis by (simp add: countAndMakeRun_def)
  next
    case (Cons x1 rest)
    have sub: "set (fst (countAndMakeRun cmp xs)) \<subseteq> S"
      using countAndMakeRun_set [of cmp xs] s by blast
    show ?thesis
    proof (cases "isNegative (cmp x1 x0)")
      case True
      let ?c = "\<lambda>current previous. isNegative (cmp current previous)"
      let ?run = "x0 # x1 # fst (runPrefix ?c x1 rest)"
      have run: "fst (countAndMakeRun cmp xs) = rev ?run"
        using True xs Cons by (simp add: countAndMakeRun_def Let_def)
      have "successively (\<lambda>previous current. ?c current previous) ?run"
        using True runPrefix_successively [of ?c x1 rest] by simp
      then have sr: "successively (\<lambda>a b. isNegative (cmp a b)) (rev ?run)"
        by (simp only: successively_rev)
      have subr: "set (rev ?run) \<subseteq> S" using sub by (simp only: run)
      have "successively (\<lambda>a b. \<not> isNegative (cmp b a)) (rev ?run)"
      proof (rule successively_mono [OF sr])
        fix a b
        assume "a \<in> set (rev ?run)" "b \<in> set (rev ?run)" and n: "isNegative (cmp a b)"
        then have "a \<in> S" "b \<in> S" using subr by blast+
        then show "\<not> isNegative (cmp b a)" using neg_asym [OF c _ _ n] by blast
      qed
      then have "sorted_wrt (\<lambda>a b. \<not> isNegative (cmp b a)) (rev ?run)"
        by (rule successively_sorted [OF c subr])
      then show ?thesis by (simp only: run)
    next
      case False
      let ?c = "\<lambda>current previous. \<not> isNegative (cmp current previous)"
      let ?run = "x0 # x1 # fst (runPrefix ?c x1 rest)"
      have run: "fst (countAndMakeRun cmp xs) = ?run"
        using False xs Cons by (simp add: countAndMakeRun_def Let_def)
      have subr: "set ?run \<subseteq> S" using sub by (simp only: run)
      have "successively (\<lambda>a b. \<not> isNegative (cmp b a)) ?run"
        using False runPrefix_successively [of ?c x1 rest] by simp
      then have "sorted_wrt (\<lambda>a b. \<not> isNegative (cmp b a)) ?run"
        by (rule successively_sorted [OF c subr])
      then show ?thesis by (simp only: run)
    qed
  qed
qed

text \<open>
  The binary search keeps its invariant: the pivot is not before any element left of
  \<open>left\<close>, and it is before every element from \<open>right\<close> on.
\<close>

lemma binarySearch_spec:
  "consistentComparator cmp S \<Longrightarrow> set ws \<subseteq> S \<Longrightarrow> pivot \<in> S
     \<Longrightarrow> sorted_wrt (\<lambda>a b. \<not> isNegative (cmp b a)) ws
     \<Longrightarrow> left \<le> right \<Longrightarrow> right \<le> length ws
     \<Longrightarrow> (\<forall>i < left. \<not> isNegative (cmp pivot (ws ! i)))
     \<Longrightarrow> (\<forall>i. right \<le> i \<and> i < length ws \<longrightarrow> isNegative (cmp pivot (ws ! i)))
     \<Longrightarrow> binarySearch cmp pivot ws left right \<le> length ws
       \<and> (\<forall>i < binarySearch cmp pivot ws left right. \<not> isNegative (cmp pivot (ws ! i)))
       \<and> (\<forall>i. binarySearch cmp pivot ws left right \<le> i \<and> i < length ws
              \<longrightarrow> isNegative (cmp pivot (ws ! i)))"
proof (induction cmp pivot ws left right rule: binarySearch.induct)
  case (1 cmp pivot ws left right)
  note c = 1(3) and s = 1(4) and p = 1(5) and sorted = 1(6)
  show ?case
  proof (cases "left < right")
    case False
    then have "binarySearch cmp pivot ws left right = left"
      by (subst binarySearch.simps) simp
    moreover have "left = right" using False 1(7) by simp
    ultimately show ?thesis using 1(8,9,10) by simp
  next
    case True
    define mid where "mid = left + (right - left) div 2"
    have mid: "left \<le> mid" "mid < right" "mid < length ws"
      using True 1(8) by (auto simp: mid_def)
    have inS: "ws ! i \<in> S" if "i < length ws" for i using s that nth_mem by blast
    have le: "\<not> isNegative (cmp (ws ! j) (ws ! i))" if "i < j" "j < length ws" for i j
      using sorted that by (simp add: sorted_wrt_iff_nth_less)
    show ?thesis
    proof (cases "isNegative (cmp pivot (ws ! mid))")
      case neg: True
      have eq: "binarySearch cmp pivot ws left right = binarySearch cmp pivot ws left mid"
        using True neg by (simp add: binarySearch.simps [of cmp pivot ws left right] mid_def Let_def)
      have upper: "\<forall>i. mid \<le> i \<and> i < length ws \<longrightarrow> isNegative (cmp pivot (ws ! i))"
      proof (intro allI impI)
        fix i assume i: "mid \<le> i \<and> i < length ws"
        show "isNegative (cmp pivot (ws ! i))"
        proof (cases "i = mid")
          case True then show ?thesis using neg by simp
        next
          case False
          with i have "mid < i" by simp
          then have "\<not> isNegative (cmp (ws ! i) (ws ! mid))" using le i by blast
          then show ?thesis
            using neg_le_trans [OF c p inS [OF mid(3)] inS neg] i by blast
        qed
      qed
      have "binarySearch cmp pivot ws left mid \<le> length ws
       \<and> (\<forall>i < binarySearch cmp pivot ws left mid. \<not> isNegative (cmp pivot (ws ! i)))
       \<and> (\<forall>i. binarySearch cmp pivot ws left mid \<le> i \<and> i < length ws
              \<longrightarrow> isNegative (cmp pivot (ws ! i)))"
        using 1(1) [OF True mid_def neg c s p sorted mid(1) _ 1(9) upper] mid(3) by simp
      with eq show ?thesis by simp
    next
      case nneg: False
      have eq: "binarySearch cmp pivot ws left right = binarySearch cmp pivot ws (mid + 1) right"
        using True nneg by (simp add: binarySearch.simps [of cmp pivot ws left right] mid_def Let_def)
      have lower: "\<forall>i < mid + 1. \<not> isNegative (cmp pivot (ws ! i))"
      proof (intro allI impI)
        fix i assume i: "i < mid + 1"
        show "\<not> isNegative (cmp pivot (ws ! i))"
        proof (cases "i = mid")
          case True then show ?thesis using nneg by simp
        next
          case False
          with i have lt: "i < mid" by simp
          then have il: "i < length ws" using mid(3) by simp
          have l: "\<not> isNegative (cmp (ws ! mid) (ws ! i))" using le [OF lt mid(3)] .
          show ?thesis
          proof
            assume n: "isNegative (cmp pivot (ws ! i))"
            have "isNegative (cmp pivot (ws ! mid))"
              using neg_le_trans [OF c p inS [OF il] inS [OF mid(3)] n l] .
            with nneg show False by blast
          qed
        qed
      qed
      have "binarySearch cmp pivot ws (mid + 1) right \<le> length ws
       \<and> (\<forall>i < binarySearch cmp pivot ws (mid + 1) right. \<not> isNegative (cmp pivot (ws ! i)))
       \<and> (\<forall>i. binarySearch cmp pivot ws (mid + 1) right \<le> i \<and> i < length ws
              \<longrightarrow> isNegative (cmp pivot (ws ! i)))"
        using 1(2) [OF True mid_def nneg c s p sorted _ 1(8) lower 1(10)] mid(2) by simp
      with eq show ?thesis by simp
    qed
  qed
qed

lemma insertPivot_sorted:
  assumes c: "consistentComparator cmp S" and s: "set ws \<subseteq> S" and p: "pivot \<in> S"
    and sorted: "sorted_wrt (\<lambda>a b. \<not> isNegative (cmp b a)) ws"
  shows "sorted_wrt (\<lambda>a b. \<not> isNegative (cmp b a)) (insertPivot cmp ws pivot)"
proof -
  define r where "r = binarySearch cmp pivot ws 0 (length ws)"
  have "binarySearch cmp pivot ws 0 (length ws) \<le> length ws
       \<and> (\<forall>i < binarySearch cmp pivot ws 0 (length ws). \<not> isNegative (cmp pivot (ws ! i)))
       \<and> (\<forall>i. binarySearch cmp pivot ws 0 (length ws) \<le> i \<and> i < length ws
              \<longrightarrow> isNegative (cmp pivot (ws ! i)))"
    by (rule binarySearch_spec [OF c s p sorted]) auto
  then have spec: "r \<le> length ws" "\<forall>i < r. \<not> isNegative (cmp pivot (ws ! i))"
    "\<forall>i. r \<le> i \<and> i < length ws \<longrightarrow> isNegative (cmp pivot (ws ! i))"
    unfolding r_def by blast+
  have st: "sorted_wrt (\<lambda>a b. \<not> isNegative (cmp b a)) (take r ws @ drop r ws)"
    using sorted by (simp only: append_take_drop_id)
  have before: "\<not> isNegative (cmp pivot x)" if "x \<in> set (take r ws)" for x
  proof -
    from that obtain i where i: "i < length (take r ws)" "take r ws ! i = x"
      unfolding in_set_conv_nth by blast
    from i(1) have "i < r" by simp
    moreover from i have "ws ! i = x" by simp
    ultimately show ?thesis using spec(2) by blast
  qed
  have after: "\<not> isNegative (cmp y pivot)" if "y \<in> set (drop r ws)" for y
  proof -
    from that obtain i where i: "i < length (drop r ws)" "drop r ws ! i = y"
      unfolding in_set_conv_nth by blast
    from i(1) have 1: "r + i < length ws" by simp
    from i spec(1) have 2: "ws ! (r + i) = y" by simp
    have "r \<le> r + i" by simp
    with 1 spec(3) have "isNegative (cmp pivot (ws ! (r + i)))" by blast
    then have n: "isNegative (cmp pivot y)" by (simp only: 2)
    have "y \<in> set ws" using that by (rule in_set_dropD)
    then have "y \<in> S" using s by blast
    then show ?thesis using neg_asym [OF c p _ n] by blast
  qed
  from st have parts: "sorted_wrt (\<lambda>a b. \<not> isNegative (cmp b a)) (take r ws)"
    "sorted_wrt (\<lambda>a b. \<not> isNegative (cmp b a)) (drop r ws)"
    "\<forall>x \<in> set (take r ws). \<forall>y \<in> set (drop r ws). \<not> isNegative (cmp y x)"
    unfolding sorted_wrt_append by blast+
  have "sorted_wrt (\<lambda>a b. \<not> isNegative (cmp b a)) (pivot # drop r ws)"
    using parts(2) after by simp
  then have "sorted_wrt (\<lambda>a b. \<not> isNegative (cmp b a)) (take r ws @ pivot # drop r ws)"
    unfolding sorted_wrt_append using parts(1,3) before by simp
  then show ?thesis by (simp add: insertPivot_def Let_def r_def)
qed

lemma binaryInsertionSort_sorted:
  assumes c: "consistentComparator cmp S"
  shows "set front \<subseteq> S \<Longrightarrow> set rest \<subseteq> S
     \<Longrightarrow> sorted_wrt (\<lambda>a b. \<not> isNegative (cmp b a)) front
     \<Longrightarrow> sorted_wrt (\<lambda>a b. \<not> isNegative (cmp b a)) (binaryInsertionSort cmp front rest)"
  unfolding binaryInsertionSort_def
proof (induction rest arbitrary: front)
  case Nil
  then show ?case by simp
next
  case (Cons pivot rest)
  have p: "pivot \<in> S" using Cons.prems(2) by simp
  have 1: "sorted_wrt (\<lambda>a b. \<not> isNegative (cmp b a)) (insertPivot cmp front pivot)"
    using insertPivot_sorted [OF c Cons.prems(1) p Cons.prems(3)] .
  have "set_mset (mset (insertPivot cmp front pivot)) = set_mset (add_mset pivot (mset front))"
    by (simp only: insertPivot_mset)
  then have 2: "set (insertPivot cmp front pivot) \<subseteq> S" using Cons.prems(1) p by simp
  show ?case using Cons.IH [OF 2 _ 1] Cons.prems(2) by simp
qed

lemma arraySort_sorted:
  assumes c: "consistentComparator cmp (set xs)"
  shows "sorted_wrt (\<lambda>a b. \<not> isNegative (cmp b a)) (arraySort cmp xs)"
proof -
  have s: "set (fst (countAndMakeRun cmp xs)) \<subseteq> set xs" "set (snd (countAndMakeRun cmp xs)) \<subseteq> set xs"
    using countAndMakeRun_set [of cmp xs] by blast+
  show ?thesis
    unfolding arraySort_def Let_def
    using binaryInsertionSort_sorted [OF c s countAndMakeRun_sorted [OF c subset_refl]] .
qed

lemma arraySort_conforming: "conformingSort arraySort"
  unfolding conformingSort_def by (simp add: arraySort_mset arraySort_sorted)

subsection \<open>What a conforming sort gives\<close>

lemma conforming_mset: "conformingSort sortFn \<Longrightarrow> mset (sortFn cmp xs) = mset xs"
  unfolding conformingSort_def by blast

lemma conforming_set: "conformingSort sortFn \<Longrightarrow> set (sortFn cmp xs) = set xs"
  using conforming_mset [of sortFn cmp xs] by (metis set_mset_mset)

lemma conforming_length: "conformingSort sortFn \<Longrightarrow> length (sortFn cmp xs) = length xs"
  using conforming_mset [of sortFn cmp xs] by (metis size_mset)

lemma conforming_sorted:
  "conformingSort sortFn \<Longrightarrow> consistentComparator cmp (set xs)
     \<Longrightarrow> sorted_wrt (\<lambda>a b. \<not> isNegative (cmp b a)) (sortFn cmp xs)"
  unfolding conformingSort_def by blast

text \<open>In the result, an element that the comparator puts before another one is before it.\<close>

lemma conforming_before:
  assumes cs: "conformingSort sortFn" and c: "consistentComparator cmp (set xs)"
    and i: "i < length (sortFn cmp xs)" and j: "j < length (sortFn cmp xs)"
    and n: "isNegative (cmp (sortFn cmp xs ! i) (sortFn cmp xs ! j))"
  shows "i < j"
proof (rule ccontr)
  assume "\<not> i < j"
  then consider "j < i" | "j = i" by linarith
  then show False
  proof cases
    case 1
    have "\<not> isNegative (cmp (sortFn cmp xs ! i) (sortFn cmp xs ! j))"
      using conforming_sorted [OF cs c] 1 i by (simp add: sorted_wrt_iff_nth_less)
    with n show False by blast
  next
    case 2
    have m: "sortFn cmp xs ! i \<in> set xs"
      using nth_mem [OF i] conforming_set [OF cs, of cmp xs] by simp
    have "isZero (cmp (sortFn cmp xs ! i) (sortFn cmp xs ! i))"
      using consistentD(2) [OF c m m m] .
    moreover have "cmp (sortFn cmp xs ! i) (sortFn cmp xs ! i) \<noteq> NaN"
      using consistentD(1) [OF c m m m] .
    ultimately show False using n 2 cmp_cases by blast
  qed
qed

section \<open>Ranking\<close>

lemma tag_distinct:
  "File \<noteq> Symbol" "File \<noteq> Class" "Symbol \<noteq> Class" "Symbol \<noteq> File" "Class \<noteq> File" "Class \<noteq> Symbol"
  by (simp_all add: File_def Symbol_def Class_def)

subsection \<open>The rounding and the epsilon\<close>

lemma eps_pos: "0 < SCORE_EPSILON"
  by (simp add: SCORE_EPSILON_def)

lemma decimal_within: "\<bar>d\<bar> \<le> 1 / 10 ^ 9 \<Longrightarrow> \<bar>d\<bar> \<le> SCORE_EPSILON"
proof -
  have "(1::real) / 10 ^ 9 \<le> SCORE_EPSILON" by (simp add: SCORE_EPSILON_def)
  then show "\<bar>d\<bar> \<le> 1 / 10 ^ 9 \<Longrightarrow> \<bar>d\<bar> \<le> SCORE_EPSILON" by linarith
qed

lemma id_rounding: "isRounding id" "isRounding (\<lambda>x. x)"
  by (simp_all add: isRounding_def)

lemma rounding_mono: "isRounding fl \<Longrightarrow> x \<le> y \<Longrightarrow> fl x \<le> fl y"
  unfolding isRounding_def by blast

lemma rounding_minus: "isRounding fl \<Longrightarrow> fl (x - y) = - fl (y - x)"
proof -
  assume "isRounding fl"
  then have "fl (- (y - x)) = - fl (y - x)" unfolding isRounding_def by blast
  then show ?thesis by simp
qed

lemma rounding_zero: "isRounding fl \<Longrightarrow> fl 0 = 0"
  using rounding_minus [of fl 0 0] by simp

lemma rounding_eps: "isRounding fl \<Longrightarrow> fl SCORE_EPSILON = SCORE_EPSILON"
  unfolding isRounding_def by blast

text \<open>A computed difference above the epsilon comes from an exact one above it.\<close>

lemma rounding_above: "isRounding fl \<Longrightarrow> SCORE_EPSILON < fl d \<Longrightarrow> SCORE_EPSILON < d"
proof (rule ccontr)
  assume r: "isRounding fl" and a: "SCORE_EPSILON < fl d" and "\<not> SCORE_EPSILON < d"
  then have "d \<le> SCORE_EPSILON" by simp
  then have "fl d \<le> fl SCORE_EPSILON" by (rule rounding_mono [OF r])
  with a show False by (simp add: rounding_eps [OF r])
qed

text \<open>An exact difference within the epsilon is computed as one within it.\<close>

lemma rounding_within:
  assumes r: "isRounding fl" and d: "\<bar>d\<bar> \<le> SCORE_EPSILON"
  shows "\<bar>fl d\<bar> \<le> SCORE_EPSILON"
proof -
  from d have "d \<le> SCORE_EPSILON" "- SCORE_EPSILON \<le> d" by linarith+
  then have "fl d \<le> fl SCORE_EPSILON" "fl (- SCORE_EPSILON) \<le> fl d"
    by (auto intro: rounding_mono [OF r])
  moreover have "fl (- SCORE_EPSILON) = - SCORE_EPSILON"
    using r rounding_eps [OF r] unfolding isRounding_def by metis
  ultimately show ?thesis by (simp add: rounding_eps [OF r] abs_le_iff)
qed

subsection \<open>The comparator\<close>

lemma inBand_sym: "isRounding fl \<Longrightarrow> inBand fl a b = inBand fl b a"
proof -
  assume r: "isRounding fl"
  show ?thesis
  proof (cases "score a")
    case None
    then show ?thesis by (cases "score b") (simp_all add: inBand_def)
  next
    case (Some sa)
    note a = this
    show ?thesis
    proof (cases "score b")
      case None
      with a show ?thesis by (simp add: inBand_def)
    next
      case (Some sb)
      have "fl (sb - sa) = - fl (sa - sb)" by (rule rounding_minus [OF r])
      then have "\<bar>fl (sb - sa)\<bar> = \<bar>fl (sa - sb)\<bar>" by simp
      with a Some show ?thesis by (simp add: inBand_def)
    qed
  qed
qed

lemma inBand_refl: "isRounding fl \<Longrightarrow> inBand fl a a"
  using eps_pos by (cases "score a") (simp_all add: inBand_def rounding_zero)

lemma band_trichotomy:
  assumes r: "isRounding fl"
  shows "(inBand fl a b \<and> \<not> scoreAbove fl a b \<and> \<not> scoreAbove fl b a)
       \<or> (\<not> inBand fl a b \<and> scoreAbove fl a b \<and> \<not> scoreAbove fl b a)
       \<or> (\<not> inBand fl a b \<and> \<not> scoreAbove fl a b \<and> scoreAbove fl b a)"
proof (cases "score a")
  case None
  then show ?thesis by (cases "score b") (simp_all add: inBand_def scoreAbove_def)
next
  case (Some sa)
  note a = this
  show ?thesis
  proof (cases "score b")
    case None
    with a show ?thesis by (simp add: inBand_def scoreAbove_def)
  next
    case (Some sb)
    have "fl (sb - sa) = - fl (sa - sb)" by (rule rounding_minus [OF r])
    with a Some eps_pos show ?thesis
      by (simp add: inBand_def scoreAbove_def abs_le_iff) linarith
  qed
qed

lemma scoreAbove_trans:
  assumes r: "isRounding fl" and 1: "scoreAbove fl a b" and 2: "scoreAbove fl b c"
  shows "scoreAbove fl a c"
proof -
  from 1 obtain sa where a: "score a = Some sa"
    by (cases "score a") (simp_all add: scoreAbove_def)
  from 2 obtain sb where b: "score b = Some sb"
    by (cases "score b") (simp_all add: scoreAbove_def)
  show ?thesis
  proof (cases "score c")
    case None
    with a show ?thesis by (simp add: scoreAbove_def)
  next
    case (Some sc)
    from 1 a b have ab: "SCORE_EPSILON < fl (sa - sb)" by (simp add: scoreAbove_def)
    from 2 b Some have "SCORE_EPSILON < fl (sb - sc)" by (simp add: scoreAbove_def)
    then have "SCORE_EPSILON < sb - sc" by (rule rounding_above [OF r])
    with eps_pos have "sa - sb \<le> sa - sc" by simp
    then have "fl (sa - sb) \<le> fl (sa - sc)" by (rule rounding_mono [OF r])
    with ab a Some show ?thesis by (simp add: scoreAbove_def)
  qed
qed

lemma compare_activity_first:
  assumes "activityScore a \<noteq> None" "activityScore b = None"
  shows "compareItems fl a b = Fin (- 1)" "compareItems fl b a = Fin 1"
  using assms by (simp_all add: compareItems_def hasActivity_def)

lemma compare_more_recent:
  assumes "activityScore a = Some ta" "activityScore b = Some tb" "ta \<noteq> tb"
  shows "compareItems fl a b = Fin (tb - ta)"
  using assms by (simp add: compareItems_def hasActivity_def)

lemma same_activity_compare:
  assumes "activityScore a = activityScore b"
  shows "compareItems fl a b =
     (if jsGreater (jsAbs (jsSub fl (scoreOrNegInf a) (scoreOrNegInf b))) (Fin SCORE_EPSILON)
      then jsSub fl (scoreOrNegInf b) (scoreOrNegInf a)
      else Fin (priorityOr50 b - priorityOr50 a))"
  using assms by (simp add: compareItems_def hasActivity_def Let_def)

lemma band_test:
  "jsGreater (jsAbs (jsSub fl (scoreOrNegInf a) (scoreOrNegInf b))) (Fin SCORE_EPSILON)
     = (\<not> inBand fl a b)"
  by (cases "score a"; cases "score b") (auto simp: scoreOrNegInf_def inBand_def)

lemma compare_in_band:
  assumes "activityScore a = activityScore b" "inBand fl a b"
  shows "compareItems fl a b = Fin (priorityOr50 b - priorityOr50 a)"
  using assms by (simp add: same_activity_compare band_test)

lemma compare_out_of_band:
  assumes "activityScore a = activityScore b" "\<not> inBand fl a b"
  shows "compareItems fl a b = jsSub fl (scoreOrNegInf b) (scoreOrNegInf a)"
  using assms by (simp add: same_activity_compare band_test)

lemma score_difference_sign:
  assumes r: "isRounding fl" and nb: "\<not> inBand fl a b"
  shows "isNegative (jsSub fl (scoreOrNegInf b) (scoreOrNegInf a)) = scoreAbove fl a b"
    and "isPositive (jsSub fl (scoreOrNegInf b) (scoreOrNegInf a)) = scoreAbove fl b a"
    and "\<not> isZero (jsSub fl (scoreOrNegInf b) (scoreOrNegInf a))"
    and "jsSub fl (scoreOrNegInf b) (scoreOrNegInf a) \<noteq> NaN"
proof -
  have "isNegative (jsSub fl (scoreOrNegInf b) (scoreOrNegInf a)) = scoreAbove fl a b
      \<and> isPositive (jsSub fl (scoreOrNegInf b) (scoreOrNegInf a)) = scoreAbove fl b a
      \<and> \<not> isZero (jsSub fl (scoreOrNegInf b) (scoreOrNegInf a))
      \<and> jsSub fl (scoreOrNegInf b) (scoreOrNegInf a) \<noteq> NaN"
  proof (cases "score a")
    case None
    then show ?thesis using nb
      by (cases "score b") (simp_all add: scoreOrNegInf_def inBand_def scoreAbove_def)
  next
    case (Some sa)
    note a = this
    show ?thesis
    proof (cases "score b")
      case None
      with a show ?thesis by (simp add: scoreOrNegInf_def scoreAbove_def)
    next
      case (Some sb)
      have m: "fl (sa - sb) = - fl (sb - sa)" by (rule rounding_minus [OF r])
      from nb a Some have "\<not> \<bar>fl (sa - sb)\<bar> \<le> SCORE_EPSILON" by (simp add: inBand_def)
      then have "SCORE_EPSILON < fl (sa - sb) \<or> fl (sa - sb) < - SCORE_EPSILON" by linarith
      then show ?thesis using a Some eps_pos m
        by (auto simp: scoreOrNegInf_def scoreAbove_def)
    qed
  qed
  then show "isNegative (jsSub fl (scoreOrNegInf b) (scoreOrNegInf a)) = scoreAbove fl a b"
    and "isPositive (jsSub fl (scoreOrNegInf b) (scoreOrNegInf a)) = scoreAbove fl b a"
    and "\<not> isZero (jsSub fl (scoreOrNegInf b) (scoreOrNegInf a))"
    and "jsSub fl (scoreOrNegInf b) (scoreOrNegInf a) \<noteq> NaN"
    by blast+
qed

lemma compare_not_nan: "isRounding fl \<Longrightarrow> compareItems fl a b \<noteq> NaN"
proof -
  assume r: "isRounding fl"
  show ?thesis
  proof (cases "activityScore a = activityScore b")
    case True
    then show ?thesis
      using compare_in_band [OF True, of fl] compare_out_of_band [OF True, of fl]
        score_difference_sign(4) [OF r, of a b]
      by (cases "inBand fl a b") simp_all
  next
    case False
    then show ?thesis
      by (cases "activityScore a"; cases "activityScore b")
         (simp_all add: compare_activity_first compare_more_recent)
  qed
qed

lemma compare_neg_iff:
  assumes r: "isRounding fl"
  shows "isNegative (compareItems fl a b) = ranksBefore fl a b"
proof (cases "activityScore a = activityScore b")
  case True
  have nb: "\<not> scoreAbove fl a b" if "inBand fl a b" using band_trichotomy [OF r, of a b] that by blast
  show ?thesis
  proof (cases "inBand fl a b")
    case b: True
    show ?thesis using True b nb [OF b]
      by (cases "activityScore a"; cases "activityScore b")
         (simp_all add: compare_in_band [OF True b] ranksBefore_def)
  next
    case b: False
    show ?thesis using True b score_difference_sign(1) [OF r b]
      by (cases "activityScore a"; cases "activityScore b")
         (simp_all add: compare_out_of_band [OF True b] ranksBefore_def)
  qed
next
  case False
  then show ?thesis
    by (cases "activityScore a"; cases "activityScore b")
       (auto simp: compare_activity_first compare_more_recent ranksBefore_def)
qed

lemma compare_pos_iff:
  assumes r: "isRounding fl"
  shows "isPositive (compareItems fl a b) = ranksBefore fl b a"
proof (cases "activityScore a = activityScore b")
  case True
  have nb: "\<not> scoreAbove fl b a" if "inBand fl a b" using band_trichotomy [OF r, of a b] that by blast
  show ?thesis
  proof (cases "inBand fl a b")
    case b: True
    show ?thesis using True b nb [OF b] inBand_sym [OF r, of a b]
      by (cases "activityScore a"; cases "activityScore b")
         (simp_all add: compare_in_band [OF True b] ranksBefore_def)
  next
    case b: False
    show ?thesis using True b score_difference_sign(2) [OF r b] inBand_sym [OF r, of a b]
      by (cases "activityScore a"; cases "activityScore b")
         (simp_all add: compare_out_of_band [OF True b] ranksBefore_def)
  qed
next
  case False
  then show ?thesis
    by (cases "activityScore a"; cases "activityScore b")
       (auto simp: compare_activity_first compare_more_recent ranksBefore_def)
qed

lemma compare_zero_iff:
  assumes r: "isRounding fl"
  shows "isZero (compareItems fl a b)
     = (activityScore a = activityScore b \<and> inBand fl a b \<and> priorityOr50 a = priorityOr50 b)"
proof (cases "activityScore a = activityScore b")
  case True
  show ?thesis
  proof (cases "inBand fl a b")
    case b: True
    show ?thesis using True b by (auto simp: compare_in_band [OF True b])
  next
    case b: False
    show ?thesis using True b score_difference_sign(3) [OF r b]
      by (simp add: compare_out_of_band [OF True b])
  qed
next
  case False
  then show ?thesis
    by (cases "activityScore a"; cases "activityScore b")
       (auto simp: compare_activity_first compare_more_recent)
qed

lemma sortsBefore_iff: "isRounding fl \<Longrightarrow> sortsBefore fl a b = ranksBefore fl a b"
  by (simp add: sortsBefore_def compare_neg_iff compare_pos_iff)

subsection \<open>When the comparator is consistent\<close>

lemma byScore_trans:
  assumes r: "isRounding fl" and bt: "bandTransitive fl S"
    and abc: "a \<in> S" "b \<in> S" "c \<in> S"
    and act: "activityScore a = activityScore b" "activityScore b = activityScore c"
    and 1: "scoreAbove fl a b \<or> (inBand fl a b \<and> priorityOr50 b < priorityOr50 a)"
    and 2: "scoreAbove fl b c \<or> (inBand fl b c \<and> priorityOr50 c < priorityOr50 b)"
  shows "scoreAbove fl a c \<or> (inBand fl a c \<and> priorityOr50 c < priorityOr50 a)"
proof -
  note tab = band_trichotomy [OF r, of a b] and tbc = band_trichotomy [OF r, of b c]
    and tac = band_trichotomy [OF r, of a c]
  note sab = inBand_sym [OF r, of a b] and sbc = inBand_sym [OF r, of b c]
    and sac = inBand_sym [OF r, of a c]
  have b1: "inBand fl a b \<and> inBand fl b c \<longrightarrow> inBand fl a c"
    using bt abc act unfolding bandTransitive_def by blast
  have b2: "inBand fl b a \<and> inBand fl a c \<longrightarrow> inBand fl b c"
    using bt abc act unfolding bandTransitive_def by metis
  have b3: "inBand fl a c \<and> inBand fl c b \<longrightarrow> inBand fl a b"
    using bt abc act unfolding bandTransitive_def by metis
  have s1: "scoreAbove fl a b \<and> scoreAbove fl b c \<longrightarrow> scoreAbove fl a c"
    using scoreAbove_trans [OF r] by blast
  have s2: "scoreAbove fl c a \<and> scoreAbove fl a b \<longrightarrow> scoreAbove fl c b"
    using scoreAbove_trans [OF r] by blast
  have s3: "scoreAbove fl b c \<and> scoreAbove fl c a \<longrightarrow> scoreAbove fl b a"
    using scoreAbove_trans [OF r] by blast
  from 1 2 consider
      (aa) "scoreAbove fl a b" "scoreAbove fl b c"
    | (ab) "scoreAbove fl a b" "inBand fl b c" "priorityOr50 c < priorityOr50 b"
    | (ba) "inBand fl a b" "priorityOr50 b < priorityOr50 a" "scoreAbove fl b c"
    | (bb) "inBand fl a b" "priorityOr50 b < priorityOr50 a" "inBand fl b c"
           "priorityOr50 c < priorityOr50 b"
    by blast
  then show ?thesis
  proof cases
    case aa
    then show ?thesis using s1 by blast
  next
    case ab
    have "\<not> inBand fl a c" using ab(1,2) b3 sbc tab by blast
    moreover have "\<not> scoreAbove fl c a" using ab(1,2) s2 tbc by blast
    ultimately show ?thesis using tac by blast
  next
    case ba
    have "\<not> inBand fl a c" using ba(1,3) b2 sab tbc by blast
    moreover have "\<not> scoreAbove fl c a" using ba(1,3) s3 tab by blast
    ultimately show ?thesis using tac by blast
  next
    case bb
    then have "inBand fl a c" using b1 by blast
    moreover have "priorityOr50 c < priorityOr50 a" using bb(2,4) by linarith
    ultimately show ?thesis by blast
  qed
qed

lemma ranksBefore_cases:
  "ranksBefore fl a b =
     ((activityScore a \<noteq> None \<and> activityScore b = None)
      \<or> (\<exists>ta tb. activityScore a = Some ta \<and> activityScore b = Some tb \<and> tb < ta)
      \<or> (activityScore a = activityScore b
           \<and> (scoreAbove fl a b \<or> (inBand fl a b \<and> priorityOr50 b < priorityOr50 a))))"
  by (cases "activityScore a"; cases "activityScore b") (auto simp: ranksBefore_def)

lemma ranksBefore_trans:
  assumes r: "isRounding fl" and bt: "bandTransitive fl S"
    and abc: "a \<in> S" "b \<in> S" "c \<in> S"
    and 1: "ranksBefore fl a b" and 2: "ranksBefore fl b c"
  shows "ranksBefore fl a c"
proof -
  let ?by = "\<lambda>x y. scoreAbove fl x y \<or> (inBand fl x y \<and> priorityOr50 y < priorityOr50 x)"
  from 1 consider
      (first) "activityScore a \<noteq> None" "activityScore b = None"
    | (recent) ta tb where "activityScore a = Some ta" "activityScore b = Some tb" "tb < ta"
    | (same) "activityScore a = activityScore b" "?by a b"
    unfolding ranksBefore_cases by auto
  then show ?thesis
  proof cases
    case first
    with 2 have "activityScore c = None" "?by b c" unfolding ranksBefore_cases by auto
    with first show ?thesis unfolding ranksBefore_cases by blast
  next
    case recent
    from 2 consider
        "activityScore c = None"
      | tc where "activityScore c = Some tc" "tc < tb"
      | "activityScore c = Some tb"
      using recent(2) unfolding ranksBefore_cases by auto
    then show ?thesis
    proof cases
      case 1
      with recent show ?thesis unfolding ranksBefore_cases by simp
    next
      case 2
      with recent show ?thesis unfolding ranksBefore_cases by simp
    next
      case 3
      with recent show ?thesis unfolding ranksBefore_cases by simp
    qed
  next
    case same
    from 2 consider
        (first) "activityScore b \<noteq> None" "activityScore c = None"
      | (recent) tb tc where "activityScore b = Some tb" "activityScore c = Some tc" "tc < tb"
      | (same') "activityScore b = activityScore c" "?by b c"
      unfolding ranksBefore_cases by auto
    then show ?thesis
    proof cases
      case first
      with same(1) show ?thesis unfolding ranksBefore_cases by simp
    next
      case recent
      with same(1) show ?thesis unfolding ranksBefore_cases by simp
    next
      case same'
      have "?by a c" using byScore_trans [OF r bt abc same(1) same'(1) same(2) same'(2)] .
      with same(1) same'(1) show ?thesis unfolding ranksBefore_cases by simp
    qed
  qed
qed

text \<open>
  If being within the epsilon is transitive on the items, the comparator is a consistent
  comparison function for them.
\<close>

lemma compareItems_consistent:
  assumes r: "isRounding fl" and bt: "bandTransitive fl S"
  shows "consistentComparator (compareItems fl) S"
  unfolding consistentComparator_def
proof (intro ballI conjI impI)
  fix a b c
  assume abc: "a \<in> S" "b \<in> S" "c \<in> S"
  show "compareItems fl a b \<noteq> NaN" by (rule compare_not_nan [OF r])
  show "isZero (compareItems fl a a)" by (simp add: compare_zero_iff [OF r] inBand_refl [OF r])
  show "isZero (compareItems fl b a)" if "isZero (compareItems fl a b)"
    using that inBand_sym [OF r, of a b] by (simp add: compare_zero_iff [OF r])
  show "isZero (compareItems fl a c)"
    if "isZero (compareItems fl a b) \<and> isZero (compareItems fl b c)"
  proof -
    from that have z: "activityScore a = activityScore b" "activityScore b = activityScore c"
      "inBand fl a b" "inBand fl b c" "priorityOr50 a = priorityOr50 b"
      "priorityOr50 b = priorityOr50 c"
      by (simp_all add: compare_zero_iff [OF r])
    have "inBand fl a c" using bt abc z(1-4) unfolding bandTransitive_def by blast
    with z show ?thesis by (simp add: compare_zero_iff [OF r])
  qed
  show "isNegative (compareItems fl a c)"
    if "isNegative (compareItems fl a b) \<and> isNegative (compareItems fl b c)"
    using that ranksBefore_trans [OF r bt abc] by (simp add: compare_neg_iff [OF r])
  show "isPositive (compareItems fl a c)"
    if "isPositive (compareItems fl a b) \<and> isPositive (compareItems fl b c)"
    using that ranksBefore_trans [OF r bt abc(3) abc(2) abc(1)]
    by (simp add: compare_pos_iff [OF r])
qed

text \<open>On two items the comparator is always consistent.\<close>

lemma pair_bandTransitive: "isRounding fl \<Longrightarrow> bandTransitive fl {a, b}"
  unfolding bandTransitive_def
  using inBand_refl [of fl a] inBand_refl [of fl b] inBand_sym [of fl a b] by auto

text \<open>So it is on items of which no two have the same \<open>activityScore\<close> (or both none).\<close>

lemma distinct_recency_bandTransitive:
  assumes "isRounding fl" "\<forall>x \<in> S. \<forall>y \<in> S. activityScore x = activityScore y \<longrightarrow> x = y"
  shows "bandTransitive fl S"
  unfolding bandTransitive_def using assms inBand_refl [of fl] by metis

lemma list3: "length xs = 3 \<Longrightarrow> xs = [xs ! 0, xs ! 1, xs ! 2]"
  by (cases xs; cases "tl xs"; cases "tl (tl xs)") auto

lemma list2: "length xs = 2 \<Longrightarrow> xs = [xs ! 0, xs ! 1]"
  by (cases xs; cases "tl xs") auto

text \<open>
  The output of \<open>sortResultsByPriority\<close> when the comparator is consistent on the items:
  a rearrangement in which every item is before the items it sorts before.
\<close>

lemma sorted_output:
  assumes cs: "conformingSort sortFn" and r: "isRounding fl"
    and c: "consistentComparator (compareItems fl) (set results)"
  shows "mset (sortResultsByPriority sortFn fl results) = mset results"
    and "\<forall>i j. i < length results \<and> j < length results
           \<and> sortsBefore fl (sortResultsByPriority sortFn fl results ! i)
                            (sortResultsByPriority sortFn fl results ! j) \<longrightarrow> i < j"
proof -
  show "mset (sortResultsByPriority sortFn fl results) = mset results"
    unfolding sortResultsByPriority_def by (rule conforming_mset [OF cs])
  show "\<forall>i j. i < length results \<and> j < length results
           \<and> sortsBefore fl (sortResultsByPriority sortFn fl results ! i)
                            (sortResultsByPriority sortFn fl results ! j) \<longrightarrow> i < j"
    unfolding sortResultsByPriority_def
  proof (intro allI impI)
    fix i j
    assume h: "i < length results \<and> j < length results
           \<and> sortsBefore fl (sortFn (compareItems fl) results ! i)
                            (sortFn (compareItems fl) results ! j)"
    then have "i < length (sortFn (compareItems fl) results)"
      "j < length (sortFn (compareItems fl) results)"
      "isNegative (compareItems fl (sortFn (compareItems fl) results ! i)
                                   (sortFn (compareItems fl) results ! j))"
      by (simp_all add: conforming_length [OF cs] sortsBefore_def)
    then show "i < j" by (rule conforming_before [OF cs c])
  qed
qed

text \<open>Where two given items of the array are in the output, if one sorts before the other.\<close>

lemma sorted_pair:
  assumes cs: "conformingSort sortFn" and r: "isRounding fl"
    and c: "consistentComparator (compareItems fl) (set results)"
    and ab: "a \<in> set results" "b \<in> set results" and before: "sortsBefore fl a b"
  shows "\<exists>i j. i < j \<and> j < length results
           \<and> sortResultsByPriority sortFn fl results ! i = a
           \<and> sortResultsByPriority sortFn fl results ! j = b"
proof -
  let ?out = "sortResultsByPriority sortFn fl results"
  have s: "set ?out = set results" "length ?out = length results"
    unfolding sortResultsByPriority_def
    by (simp_all add: conforming_set [OF cs] conforming_length [OF cs])
  from ab s obtain i j where ij: "i < length results" "?out ! i = a" "j < length results" "?out ! j = b"
    by (metis in_set_conv_nth)
  with before sorted_output(2) [OF cs r c] have "i < j" by blast
  with ij show ?thesis by blast
qed

lemma sort_two:
  assumes cs: "conformingSort sortFn" and r: "isRounding fl" and before: "sortsBefore fl a b"
  shows "sortResultsByPriority sortFn fl [a, b] = [a, b]"
    and "sortResultsByPriority sortFn fl [b, a] = [a, b]"
proof -
  have c: "consistentComparator (compareItems fl) {a, b}"
    by (rule compareItems_consistent [OF r pair_bandTransitive [OF r]])
  have gen: "sortResultsByPriority sortFn fl xs = [a, b]" if xs: "xs = [a, b] \<or> xs = [b, a]" for xs
  proof -
    let ?out = "sortResultsByPriority sortFn fl xs"
    from xs have set: "set xs = {a, b}" and len: "length xs = 2" by auto
    have c': "consistentComparator (compareItems fl) (set xs)" using c set by simp
    have l: "length ?out = 2"
      unfolding sortResultsByPriority_def using len by (simp add: conforming_length [OF cs])
    from sorted_pair [OF cs r c' _ _ before] set len
    obtain i j where "i < j" "j < 2" "?out ! i = a" "?out ! j = b" by auto
    then have "i = 0" "j = 1" by auto
    with \<open>?out ! i = a\<close> \<open>?out ! j = b\<close> list2 [OF l] show ?thesis by simp
  qed
  show "sortResultsByPriority sortFn fl [a, b] = [a, b]" by (rule gen) simp
  show "sortResultsByPriority sortFn fl [b, a] = [a, b]" by (rule gen) simp
qed

lemma sort_three:
  assumes cs: "conformingSort sortFn" and r: "isRounding fl"
    and c: "consistentComparator (compareItems fl) {a, b, c}"
    and before: "sortsBefore fl b a" "sortsBefore fl a c"
    and xs: "mset xs = {#a, b, c#}"
  shows "sortResultsByPriority sortFn fl xs = [b, a, c]"
proof -
  let ?out = "sortResultsByPriority sortFn fl xs"
  from xs have "set_mset (mset xs) = set_mset {#a, b, c#}" by simp
  then have set: "set xs = {a, b, c}" by simp
  from xs have "size (mset xs) = size {#a, b, c#}" by simp
  then have len: "length xs = 3" by simp
  have c': "consistentComparator (compareItems fl) (set xs)" using c set by simp
  have l: "length ?out = 3"
    unfolding sortResultsByPriority_def using len by (simp add: conforming_length [OF cs])
  from sorted_pair [OF cs r c' _ _ before(1)] set len
  obtain i j where ij: "i < j" "j < 3" "?out ! i = b" "?out ! j = a" by auto
  from sorted_pair [OF cs r c' _ _ before(2)] set len
  obtain k m where km: "k < m" "m < 3" "?out ! k = a" "?out ! m = c" by auto
  have ne: "a \<noteq> b"
  proof
    assume "a = b"
    with before(1) show False
      using compare_not_nan [OF r, of a a] cmp_cases [of "compareItems fl a a"]
      by (auto simp: sortsBefore_def)
  qed
  have "j \<noteq> 0" using ij by simp
  have "k \<noteq> i" using ij(3) km(3) ne by auto
  have "i = 0 \<and> j = 1 \<and> k = 1 \<and> m = 2"
  proof -
    have "k = j"
    proof (rule ccontr)
      assume kj: "k \<noteq> j"
      have d: "j \<noteq> i" using ij(1) by simp
      have "k < 2" using km by simp
      have "j \<le> 2" using ij by simp
      from sorted_output(2) [OF cs r c'] have ord: "\<And>p q. p < 3 \<Longrightarrow> q < 3
          \<Longrightarrow> sortsBefore fl (?out ! p) (?out ! q) \<Longrightarrow> p < q"
        using len by auto
      have "i < k" using ord [of i k] ij km before(1) by simp
      have "j < m" using ord [of j m] ij km before(2) by simp
      with \<open>i < j\<close> \<open>m < 3\<close> have "i = 0" "j = 1" "m = 2" by simp_all
      with \<open>i < k\<close> \<open>k < m\<close> kj show False by simp
    qed
    with ij km show ?thesis by simp
  qed
  with ij km list3 [OF l] show ?thesis by simp
qed

subsection \<open>The claims\<close>

lemma activity_first:
  assumes "activityScore a \<noteq> None" "activityScore b = None"
  shows "sortsBefore fl a b"
  using assms by (simp add: sortsBefore_def compare_activity_first)

lemma more_recent_first:
  assumes "activityScore a = Some ta" "activityScore b = Some tb" "tb < ta"
  shows "sortsBefore fl a b"
  using assms
  by (simp add: sortsBefore_def compare_more_recent [of a ta b tb] compare_more_recent [of b tb a ta])

lemma higher_score_first:
  assumes "isRounding fl" "activityScore a = activityScore b" "score a = Some sa" "score b = Some sb"
    "SCORE_EPSILON < fl (sa - sb)"
  shows "sortsBefore fl a b"
  using assms by (simp add: sortsBefore_iff ranksBefore_cases scoreAbove_def)

lemma missing_score_last:
  assumes "isRounding fl" "activityScore a = activityScore b" "score a = Some sa" "score b = None"
  shows "sortsBefore fl a b"
  using assms by (simp add: sortsBefore_iff ranksBefore_cases scoreAbove_def)

lemma within_epsilon_priority_first:
  assumes "isRounding fl" "activityScore a = activityScore b"
    "(score a = Some sa \<and> score b = Some sb \<and> \<bar>fl (sa - sb)\<bar> \<le> SCORE_EPSILON)
       \<or> (score a = None \<and> score b = None)"
    "priorityOr50 b < priorityOr50 a"
  shows "sortsBefore fl a b"
proof -
  from assms(3) have "inBand fl a b" by (auto simp: inBand_def)
  with assms(1,2,4) show ?thesis by (simp add: sortsBefore_iff ranksBefore_cases)
qed

lemma not_sortsBefore_self: "isRounding fl \<Longrightarrow> \<not> sortsBefore fl a a"
  using band_trichotomy [of fl a a] by (auto simp: sortsBefore_iff ranksBefore_cases)

text \<open>
  C2 (as amended). For every pair of items the comparator of \<open>sortResultsByPriority\<close>
  decides as follows: an item with a numeric \<open>activityScore\<close> sorts before any item without
  one; of two items that both have one, the one with the larger timestamp sorts first;
  otherwise (neither has one, or the timestamps are equal) the item with the higher
  score sorts first, a missing score counting as minus infinity, unless the computed
  difference of the scores is at most the epsilon (or both scores are missing), in
  which case the item with the higher priority sorts first, where a missing priority
  counts as 50 (and so does priority 0, see C10). These rules are all there is
  (\<open>ranksBefore\<close>). The epsilon is the double \<open>1e-9\<close>, tested against the difference as it
  is computed; a computed difference above the epsilon comes from an exact one above it,
  and an exact one within it is computed as one within it.

  Whenever the comparator is a consistent comparison function for the items of the
  array, the sorted array is a rearrangement of the array in which every item is before
  the items it sorts before. The comparator is consistent if being within the epsilon is
  transitive among the items that have the same \<open>activityScore\<close> or none. For items A
  (\<open>activityScore\<close> T1), B (\<open>activityScore\<close> T2 > T1) and C (no \<open>activityScore\<close>), whatever
  their scores and in whichever order they are given, the sorted order is [B, A, C].
  All this for every sort that conforms to ECMAScript.
\<close>

theorem ranking_order:
  assumes r: "isRounding fl"
  shows
  "(activityScore a \<noteq> None \<and> activityScore b = None \<longrightarrow> sortsBefore fl a b)
   \<and> (activityScore a = Some ta \<and> activityScore b = Some tb \<and> tb < ta \<longrightarrow> sortsBefore fl a b)
   \<and> (activityScore a = activityScore b \<longrightarrow>
        (score a = Some sa \<and> score b = Some sb \<and> SCORE_EPSILON < fl (sa - sb)
           \<longrightarrow> sortsBefore fl a b)
      \<and> (score a = Some sa \<and> score b = None \<longrightarrow> sortsBefore fl a b)
      \<and> (((score a = Some sa \<and> score b = Some sb \<and> \<bar>fl (sa - sb)\<bar> \<le> SCORE_EPSILON)
             \<or> (score a = None \<and> score b = None))
           \<and> priorityOr50 b < priorityOr50 a \<longrightarrow> sortsBefore fl a b))
   \<and> sortsBefore fl a b = ranksBefore fl a b
   \<and> (SCORE_EPSILON < fl d \<longrightarrow> SCORE_EPSILON < d)
   \<and> (\<bar>d\<bar> \<le> SCORE_EPSILON \<longrightarrow> \<bar>fl d\<bar> \<le> SCORE_EPSILON)
   \<and> (priority a = None \<longrightarrow> priorityOr50 a = 50)
   \<and> (priority a = Some p \<and> p \<noteq> 0 \<longrightarrow> priorityOr50 a = p)
   \<and> (conformingSort sortFn \<and> consistentComparator (compareItems fl) (set results) \<longrightarrow>
        mset (sortResultsByPriority sortFn fl results) = mset results
      \<and> (\<forall>i j. i < length results \<and> j < length results
             \<and> sortsBefore fl (sortResultsByPriority sortFn fl results ! i)
                              (sortResultsByPriority sortFn fl results ! j) \<longrightarrow> i < j))
   \<and> (bandTransitive fl (set results) \<longrightarrow> consistentComparator (compareItems fl) (set results))
   \<and> (conformingSort sortFn \<and> activityScore A = Some t1 \<and> activityScore B = Some t2 \<and> t1 < t2
        \<and> activityScore C = None \<and> mset given = {#A, B, C#} \<longrightarrow>
        sortResultsByPriority sortFn fl given = [B, A, C])"
proof -
  have 1: "activityScore a \<noteq> None \<and> activityScore b = None \<longrightarrow> sortsBefore fl a b"
    using activity_first by blast
  have 2: "activityScore a = Some ta \<and> activityScore b = Some tb \<and> tb < ta \<longrightarrow> sortsBefore fl a b"
    using more_recent_first by blast
  have 3: "activityScore a = activityScore b \<longrightarrow>
        (score a = Some sa \<and> score b = Some sb \<and> SCORE_EPSILON < fl (sa - sb)
           \<longrightarrow> sortsBefore fl a b)
      \<and> (score a = Some sa \<and> score b = None \<longrightarrow> sortsBefore fl a b)
      \<and> (((score a = Some sa \<and> score b = Some sb \<and> \<bar>fl (sa - sb)\<bar> \<le> SCORE_EPSILON)
             \<or> (score a = None \<and> score b = None))
           \<and> priorityOr50 b < priorityOr50 a \<longrightarrow> sortsBefore fl a b)"
    using higher_score_first [OF r, of a b sa sb] missing_score_last [OF r, of a b sa]
      within_epsilon_priority_first [OF r, of a b sa sb] by blast
  have 4: "sortsBefore fl a b = ranksBefore fl a b" by (rule sortsBefore_iff [OF r])
  have 5: "(SCORE_EPSILON < fl d \<longrightarrow> SCORE_EPSILON < d)
      \<and> (\<bar>d\<bar> \<le> SCORE_EPSILON \<longrightarrow> \<bar>fl d\<bar> \<le> SCORE_EPSILON)"
    using rounding_above [OF r, of d] rounding_within [OF r, of d] by blast
  have 6: "(priority a = None \<longrightarrow> priorityOr50 a = 50)
      \<and> (priority a = Some p \<and> p \<noteq> 0 \<longrightarrow> priorityOr50 a = p)"
    by (simp add: priorityOr50_def)
  have 7: "conformingSort sortFn \<and> consistentComparator (compareItems fl) (set results) \<longrightarrow>
        mset (sortResultsByPriority sortFn fl results) = mset results
      \<and> (\<forall>i j. i < length results \<and> j < length results
             \<and> sortsBefore fl (sortResultsByPriority sortFn fl results ! i)
                              (sortResultsByPriority sortFn fl results ! j) \<longrightarrow> i < j)"
    using sorted_output [of sortFn fl results, OF _ r] by blast
  have 8: "bandTransitive fl (set results) \<longrightarrow> consistentComparator (compareItems fl) (set results)"
    using compareItems_consistent [OF r] by blast
  have 9: "conformingSort sortFn \<and> activityScore A = Some t1 \<and> activityScore B = Some t2 \<and> t1 < t2
        \<and> activityScore C = None \<and> mset given = {#A, B, C#} \<longrightarrow>
        sortResultsByPriority sortFn fl given = [B, A, C]"
  proof
    assume h: "conformingSort sortFn \<and> activityScore A = Some t1 \<and> activityScore B = Some t2
        \<and> t1 < t2 \<and> activityScore C = None \<and> mset given = {#A, B, C#}"
    then have before: "sortsBefore fl B A" "sortsBefore fl A C"
      by (auto intro: more_recent_first activity_first)
    have "bandTransitive fl {A, B, C}"
      using h by (intro distinct_recency_bandTransitive [OF r]) auto
    then have c: "consistentComparator (compareItems fl) {A, B, C}"
      by (rule compareItems_consistent [OF r])
    show "sortResultsByPriority sortFn fl given = [B, A, C]"
      using h by (intro sort_three [OF _ r c before]) simp_all
  qed
  from 1 2 3 4 5 6 7 8 9 show ?thesis by blast
qed

lemma ex_sort_defs:
  "arraySort cmp [x, y, z] =
     (if isNegative (cmp y x)
      then (if isNegative (cmp z y) then [z, y, x]
            else insertPivot cmp [y, x] z)
      else (if \<not> isNegative (cmp z y) then [x, y, z]
            else insertPivot cmp [x, y] z))"
  by (simp add: arraySort_def countAndMakeRun_def binaryInsertionSort_def Let_def)

lemma insertPivot2:
  "insertPivot cmp [x, y] z =
     (if isNegative (cmp z y) then (if isNegative (cmp z x) then [z, x, y] else [x, z, y])
      else [x, y, z])"
  by (simp add: insertPivot_def binarySearch.simps [of cmp z "[x, y]"] Let_def)

lemma arraySort2:
  "arraySort cmp [x, y] = (if isNegative (cmp y x) then [y, x] else [x, y])"
  by (simp add: arraySort_def countAndMakeRun_def binaryInsertionSort_def Let_def)

lemma ex_compare:
  "compareItems id exMid exHigh = Fin 50" "compareItems id exHigh exMid = Fin (- 50)"
  "compareItems id exTopLow exMid = Fin 40" "compareItems id exMid exTopLow = Fin (- 40)"
  "isNegative (compareItems id exTopLow exHigh)" "isPositive (compareItems id exHigh exTopLow)"
  "compareItems id exTop exMid = Fin 0"
  "isPositive (compareItems id exHigh exTop)"
  "compareItems id exLow exHigh = Fin 50" "compareItems id exHigh exLow = Fin (- 50)"
  by (simp_all add: compareItems_def hasActivity_def scoreOrNegInf_def priorityOr50_def
      SCORE_EPSILON_def exHigh_def exMid_def exTop_def exTopLow_def exLow_def baseItem_def Let_def)

theorem ranking_order_witness:
  "isRounding id
   \<and> conformingSort (arraySort :: (SearchItem \<Rightarrow> SearchItem \<Rightarrow> jsnum) \<Rightarrow> SearchItem list \<Rightarrow> SearchItem list)
   \<and> sortsBefore id exB exA \<and> sortsBefore id exA exC \<and> sortsBefore id exHigh exLow
   \<and> consistentComparator (compareItems id) (set [exC, exA, exB])
   \<and> mset (sortResultsByPriority arraySort id [exC, exA, exB]) = mset [exC, exA, exB]
   \<and> sortResultsByPriority arraySort id [exC, exA, exB] = [exB, exA, exC]
   \<and> sortResultsByPriority arraySort id [exA, exB, exC] = [exB, exA, exC]"
proof -
  note r = id_rounding(1)
  have ac: "conformingSort (arraySort :: (SearchItem \<Rightarrow> SearchItem \<Rightarrow> jsnum) \<Rightarrow> SearchItem list \<Rightarrow> SearchItem list)"
    by (rule arraySort_conforming)
  have e: "\<bar>id ((0.5::real) - 0.50000000001)\<bar> \<le> SCORE_EPSILON"
    by (simp add: SCORE_EPSILON_def)
  have lt: "(1000::real) < 2000" by simp
  have bt: "bandTransitive id (set [exC, exA, exB])"
    by (rule distinct_recency_bandTransitive [OF r])
       (simp add: exA_def exB_def exC_def baseItem_def)
  have m: "mset [exC, exA, exB] = {#exA, exB, exC#}" "mset [exA, exB, exC] = {#exA, exB, exC#}"
    by simp_all
  have f: "activityScore exB = Some 2000" "activityScore exA = Some 1000" "activityScore exC = None"
    "activityScore exA \<noteq> None"
    "activityScore exHigh = activityScore exLow" "score exHigh = Some 0.5"
    "score exLow = Some 0.50000000001" "priorityOr50 exLow < priorityOr50 exHigh"
    by (simp_all add: exA_def exB_def exC_def exHigh_def exLow_def baseItem_def priorityOr50_def)
  note w1 = ranking_order [OF r, where a = exB and b = exA and ta = 2000 and tb = 1000
          and sa = 0 and sb = 0 and d = 0 and p = 0
          and A = exA and B = exB and C = exC and ?t1.0 = 1000 and ?t2.0 = 2000
          and sortFn = arraySort and results = "[exC, exA, exB]" and given = "[exC, exA, exB]"]
  note w2 = ranking_order [OF r, where a = exA and b = exC and ta = 0 and tb = 0
          and sa = 0 and sb = 0 and d = 0 and p = 0
          and A = exA and B = exB and C = exC and ?t1.0 = 1000 and ?t2.0 = 2000
          and sortFn = arraySort and results = "[]" and given = "[exA, exB, exC]"]
  note w3 = ranking_order [OF r, where a = exHigh and b = exLow and ta = 0 and tb = 0
          and sa = "0.5" and sb = "0.50000000001" and d = 0 and p = 0
          and A = exA and B = exB and C = exC and ?t1.0 = 1000 and ?t2.0 = 2000
          and sortFn = arraySort and results = "[]" and given = "[]"]
  from w1 [THEN conjunct2, THEN conjunct1] f lt have s1: "sortsBefore id exB exA" by blast
  from w2 [THEN conjunct1] f have s2: "sortsBefore id exA exC" by blast
  from w3 [THEN conjunct2, THEN conjunct2, THEN conjunct1] f e
  have s3: "sortsBefore id exHigh exLow" by blast
  note out1 = w1 [THEN conjunct2, THEN conjunct2, THEN conjunct2, THEN conjunct2, THEN conjunct2,
      THEN conjunct2, THEN conjunct2, THEN conjunct2]
  note out2 = w2 [THEN conjunct2, THEN conjunct2, THEN conjunct2, THEN conjunct2, THEN conjunct2,
      THEN conjunct2, THEN conjunct2, THEN conjunct2]
  from out1 [THEN conjunct2, THEN conjunct1] bt
  have c: "consistentComparator (compareItems id) (set [exC, exA, exB])" by blast
  from out1 [THEN conjunct1] ac c
  have p: "mset (sortResultsByPriority arraySort id [exC, exA, exB]) = mset [exC, exA, exB]"
    by blast
  from out1 [THEN conjunct2, THEN conjunct2] ac f lt m
  have o1: "sortResultsByPriority arraySort id [exC, exA, exB] = [exB, exA, exC]"
    by blast
  from out2 [THEN conjunct2, THEN conjunct2] ac f lt m
  have o2: "sortResultsByPriority arraySort id [exA, exB, exC] = [exB, exA, exC]"
    by blast
  from r ac s1 s2 s3 c p o1 o2 show ?thesis by blast
qed

text \<open>
  The claim as stated fails where the scores are chained within the epsilon. By the
  rules \<open>exHigh\<close> (score 0.5, priority 100) sorts before \<open>exMid\<close> (0.5000000008, priority 50)
  and \<open>exMid\<close> before \<open>exTopLow\<close> (0.5000000016, priority 10), both by priority within the
  epsilon, and \<open>exTopLow\<close> sorts before \<open>exHigh\<close> by its score. No arrangement of an array
  that holds the three has every item before the items it sorts before; V8 leaves
  \<open>[exHigh, exMid, exTopLow]\<close> as it is, the highest score last.
\<close>

theorem ranking_cycle_counterexample:
  "sortsBefore id exHigh exMid \<and> sortsBefore id exMid exTopLow \<and> sortsBefore id exTopLow exHigh
   \<and> \<not> (\<exists>xs. exHigh \<in> set xs \<and> exMid \<in> set xs \<and> exTopLow \<in> set xs
            \<and> (\<forall>i j. i < length xs \<and> j < length xs \<and> sortsBefore id (xs ! i) (xs ! j)
                  \<longrightarrow> i < j))
   \<and> sortResultsByPriority arraySort id [exHigh, exMid, exTopLow] = [exHigh, exMid, exTopLow]
   \<and> \<not> consistentComparator (compareItems id) {exHigh, exMid, exTopLow}"
proof -
  have s: "sortsBefore id exHigh exMid" "sortsBefore id exMid exTopLow"
    "sortsBefore id exTopLow exHigh"
    by (simp_all add: sortsBefore_def ex_compare)
  have no: "\<not> (\<exists>xs. exHigh \<in> set xs \<and> exMid \<in> set xs \<and> exTopLow \<in> set xs
            \<and> (\<forall>i j. i < length xs \<and> j < length xs \<and> sortsBefore id (xs ! i) (xs ! j)
                  \<longrightarrow> i < j))"
  proof
    assume "\<exists>xs. exHigh \<in> set xs \<and> exMid \<in> set xs \<and> exTopLow \<in> set xs
            \<and> (\<forall>i j. i < length xs \<and> j < length xs \<and> sortsBefore id (xs ! i) (xs ! j)
                  \<longrightarrow> i < j)"
    then obtain xs where xs: "exHigh \<in> set xs" "exMid \<in> set xs" "exTopLow \<in> set xs"
      and ord: "\<And>i j. i < length xs \<Longrightarrow> j < length xs \<Longrightarrow> sortsBefore id (xs ! i) (xs ! j)
                  \<Longrightarrow> i < j"
      by blast
    from xs obtain i j k where "i < length xs" "xs ! i = exHigh" "j < length xs" "xs ! j = exMid"
      "k < length xs" "xs ! k = exTopLow"
      by (metis in_set_conv_nth)
    then have "i < j" "j < k" "k < i" using ord [of i j] ord [of j k] ord [of k i] s by simp_all
    then show False by simp
  qed
  have v8: "sortResultsByPriority arraySort id [exHigh, exMid, exTopLow] = [exHigh, exMid, exTopLow]"
    by (simp add: sortResultsByPriority_def ex_sort_defs ex_compare)
  have nc: "\<not> consistentComparator (compareItems id) {exHigh, exMid, exTopLow}"
  proof
    assume c: "consistentComparator (compareItems id) {exHigh, exMid, exTopLow}"
    have "isNegative (compareItems id exHigh exTopLow)"
      using consistentD(5) [OF c, of exHigh exMid exTopLow] by (simp add: ex_compare)
    with ex_compare(6) show False by (cases "compareItems id exHigh exTopLow") auto
  qed
  from s no v8 nc show ?thesis by blast
qed

text \<open>
  C4 (as amended). When neither item has an \<open>activityScore\<close> and the computed difference
  of their scores is at most the epsilon (the double \<open>1e-9\<close>; so it is when the exact
  difference is at most \<open>1/10^9\<close>), the comparator's result is the difference of the
  priorities (missing or 0 counting as 50) and nothing else, so of the two the item
  with the higher priority sorts first whichever score is larger. In the sorted array
  it is then before the other one if the array holds these two items only, or if the
  comparator is a consistent comparison function for the items of the array. The items
  with scores 0.5 and 0.50000000001 and priorities 100 and 50 sort with the priority-100
  item first. All this for every sort that conforms to ECMAScript.
\<close>

theorem epsilon_tie_break:
  assumes r: "isRounding fl"
  shows
  "(activityScore a = None \<and> activityScore b = None
      \<and> score a = Some sa \<and> score b = Some sb \<and> \<bar>fl (sa - sb)\<bar> \<le> SCORE_EPSILON \<longrightarrow>
        compareItems fl a b = Fin (priorityOr50 b - priorityOr50 a)
      \<and> (priorityOr50 b < priorityOr50 a \<longrightarrow>
            sortsBefore fl a b
          \<and> (conformingSort sortFn \<longrightarrow>
                sortResultsByPriority sortFn fl [a, b] = [a, b]
              \<and> sortResultsByPriority sortFn fl [b, a] = [a, b]
              \<and> (consistentComparator (compareItems fl) (set results) \<longrightarrow>
                   (\<forall>i j. i < length results \<and> j < length results
                      \<and> sortResultsByPriority sortFn fl results ! i = a
                      \<and> sortResultsByPriority sortFn fl results ! j = b \<longrightarrow> i < j)))))
   \<and> (\<bar>sa - sb\<bar> \<le> 1 / 10 ^ 9 \<longrightarrow> \<bar>fl (sa - sb)\<bar> \<le> SCORE_EPSILON)
   \<and> (conformingSort sortFn \<longrightarrow>
        sortResultsByPriority sortFn fl [exLow, exHigh] = [exHigh, exLow]
      \<and> sortResultsByPriority sortFn fl [exHigh, exLow] = [exHigh, exLow])"
proof -
  have gen: "compareItems fl a b = Fin (priorityOr50 b - priorityOr50 a)
      \<and> (priorityOr50 b < priorityOr50 a \<longrightarrow>
            sortsBefore fl a b
          \<and> (conformingSort sortFn \<longrightarrow>
                sortResultsByPriority sortFn fl [a, b] = [a, b]
              \<and> sortResultsByPriority sortFn fl [b, a] = [a, b]
              \<and> (consistentComparator (compareItems fl) (set results) \<longrightarrow>
                   (\<forall>i j. i < length results \<and> j < length results
                      \<and> sortResultsByPriority sortFn fl results ! i = a
                      \<and> sortResultsByPriority sortFn fl results ! j = b \<longrightarrow> i < j))))"
    if h: "activityScore a = None" "activityScore b = None"
      "score a = Some sa" "score b = Some sb" "\<bar>fl (sa - sb)\<bar> \<le> SCORE_EPSILON"
    for a b sa sb sortFn results
  proof -
    from h have act: "activityScore a = activityScore b" by simp
    from h have band: "inBand fl a b" by (simp add: inBand_def)
    have c: "compareItems fl a b = Fin (priorityOr50 b - priorityOr50 a)"
      using act band by (rule compare_in_band)
    have rest: "sortsBefore fl a b
          \<and> (conformingSort sortFn \<longrightarrow>
                sortResultsByPriority sortFn fl [a, b] = [a, b]
              \<and> sortResultsByPriority sortFn fl [b, a] = [a, b]
              \<and> (consistentComparator (compareItems fl) (set results) \<longrightarrow>
                   (\<forall>i j. i < length results \<and> j < length results
                      \<and> sortResultsByPriority sortFn fl results ! i = a
                      \<and> sortResultsByPriority sortFn fl results ! j = b \<longrightarrow> i < j)))"
      if p: "priorityOr50 b < priorityOr50 a"
    proof -
      have sb: "sortsBefore fl a b"
        using act band p by (simp add: sortsBefore_iff [OF r] ranksBefore_cases)
      have "(\<forall>i j. i < length results \<and> j < length results
                      \<and> sortResultsByPriority sortFn fl results ! i = a
                      \<and> sortResultsByPriority sortFn fl results ! j = b \<longrightarrow> i < j)"
        if "conformingSort sortFn" "consistentComparator (compareItems fl) (set results)"
        using sorted_output(2) [OF that(1) r that(2)] sb by auto
      with sb sort_two [OF _ r sb, of sortFn] show ?thesis by blast
    qed
    from c rest show ?thesis by blast
  qed
  have dec: "\<bar>fl (sa - sb)\<bar> \<le> SCORE_EPSILON" if "\<bar>sa - sb\<bar> \<le> 1 / 10 ^ 9" for sa sb
    using that by (intro rounding_within [OF r] decimal_within)
  have "\<bar>(0.5::real) - 0.50000000001\<bar> \<le> 1 / 10 ^ 9" by simp
  then have "\<bar>fl (0.5 - 0.50000000001)\<bar> \<le> SCORE_EPSILON" by (rule dec)
  then have ex: "conformingSort sortFn \<longrightarrow>
        sortResultsByPriority sortFn fl [exLow, exHigh] = [exHigh, exLow]
      \<and> sortResultsByPriority sortFn fl [exHigh, exLow] = [exHigh, exLow]"
    using gen [of exHigh exLow "0.5" "0.50000000001" sortFn "[]"]
    by (simp add: exHigh_def exLow_def baseItem_def priorityOr50_def)
  from gen dec ex show ?thesis by blast
qed

theorem epsilon_tie_break_witness:
  "isRounding id
   \<and> conformingSort (arraySort :: (SearchItem \<Rightarrow> SearchItem \<Rightarrow> jsnum) \<Rightarrow> SearchItem list \<Rightarrow> SearchItem list)
   \<and> compareItems id exLow exHigh = Fin 50 \<and> compareItems id exHigh exLow = Fin (- 50)
   \<and> sortsBefore id exHigh exLow
   \<and> sortResultsByPriority arraySort id [exLow, exHigh] = [exHigh, exLow]
   \<and> sortResultsByPriority arraySort id [exHigh, exLow] = [exHigh, exLow]"
proof -
  note r = id_rounding(1)
  have ac: "conformingSort (arraySort :: (SearchItem \<Rightarrow> SearchItem \<Rightarrow> jsnum) \<Rightarrow> SearchItem list \<Rightarrow> SearchItem list)"
    by (rule arraySort_conforming)
  have e: "\<bar>id ((0.5::real) - 0.50000000001)\<bar> \<le> SCORE_EPSILON"
    "\<bar>id ((0.50000000001::real) - 0.5)\<bar> \<le> SCORE_EPSILON"
    by (simp_all add: SCORE_EPSILON_def)
  have f: "activityScore exHigh = None" "activityScore exLow = None" "score exHigh = Some 0.5"
    "score exLow = Some 0.50000000001" "priorityOr50 exLow < priorityOr50 exHigh"
    by (simp_all add: exHigh_def exLow_def baseItem_def priorityOr50_def)
  have v: "Fin (priorityOr50 exHigh - priorityOr50 exLow) = Fin 50"
    "Fin (priorityOr50 exLow - priorityOr50 exHigh) = Fin (- 50)"
    by (simp_all add: exHigh_def exLow_def baseItem_def priorityOr50_def)
  note w1 = epsilon_tie_break [OF r, of exLow exHigh "0.50000000001" "0.5" arraySort "[]"]
  note w2 = epsilon_tie_break [OF r, of exHigh exLow "0.5" "0.50000000001" arraySort "[]"]
  from w1 [THEN conjunct1] f e
  have "compareItems id exLow exHigh = Fin (priorityOr50 exHigh - priorityOr50 exLow)"
    by blast
  then have c1: "compareItems id exLow exHigh = Fin 50" by (simp only: v)
  from w2 [THEN conjunct1] f e
  have "compareItems id exHigh exLow = Fin (priorityOr50 exLow - priorityOr50 exHigh)"
    by blast
  then have c2: "compareItems id exHigh exLow = Fin (- 50)" by (simp only: v)
  from w2 [THEN conjunct1] f e have s: "sortsBefore id exHigh exLow" by blast
  from w2 [THEN conjunct2, THEN conjunct2] ac
  have o: "sortResultsByPriority arraySort id [exLow, exHigh] = [exHigh, exLow]"
    "sortResultsByPriority arraySort id [exHigh, exLow] = [exHigh, exLow]"
    by blast+
  from r ac c1 c2 s o show ?thesis by blast
qed

text \<open>
  The claim as stated fails in an array with a third item. \<open>exMid\<close> (score 0.5000000008,
  priority 50) and \<open>exHigh\<close> (score 0.5, priority 100) have no \<open>activityScore\<close> and scores
  within \<open>1e-9\<close> of each other, yet V8 leaves the array \<open>[exMid, exTop, exHigh]\<close> as it
  is, the priority-50 item before the priority-100 item: \<open>exTop\<close> (score 0.5000000016,
  priority 50) is equal to \<open>exMid\<close> for the comparator, and \<open>exHigh\<close> is after \<open>exTop\<close>
  by its score, so the array is taken to be in order.
\<close>

theorem epsilon_chain_counterexample:
  "activityScore exMid = None \<and> activityScore exHigh = None
   \<and> \<bar>the (score exMid) - the (score exHigh)\<bar> \<le> 1 / 10 ^ 9
   \<and> priority exMid = Some 50 \<and> priority exHigh = Some 100
   \<and> sortResultsByPriority arraySort id [exMid, exTop, exHigh] = [exMid, exTop, exHigh]"
proof -
  have "sortResultsByPriority arraySort id [exMid, exTop, exHigh] = [exMid, exTop, exHigh]"
    using ex_compare(8) by (simp add: sortResultsByPriority_def ex_sort_defs ex_compare(7))
       (cases "compareItems id exHigh exTop"; simp)
  then show ?thesis by (simp add: exMid_def exHigh_def baseItem_def)
qed

text \<open>
  C10. An item whose priority is exactly 0 is compared as if it had no priority, that is,
  as if its priority were the default 50: \<open>priority || 50\<close> cannot tell the two apart.
\<close>

theorem priority_zero_is_default:
  "compareItems fl (a\<lparr>priority := Some 0\<rparr>) b = compareItems fl (a\<lparr>priority := None\<rparr>) b
   \<and> compareItems fl b (a\<lparr>priority := Some 0\<rparr>) = compareItems fl b (a\<lparr>priority := None\<rparr>)
   \<and> compareItems fl (a\<lparr>priority := Some 0\<rparr>) b = compareItems fl (a\<lparr>priority := Some 50\<rparr>) b
   \<and> compareItems fl b (a\<lparr>priority := Some 0\<rparr>) = compareItems fl b (a\<lparr>priority := Some 50\<rparr>)
   \<and> priorityOr50 (a\<lparr>priority := Some 0\<rparr>) = 50"
  by (simp add: compareItems_def hasActivity_def scoreOrNegInf_def priorityOr50_def Let_def
      split del: if_split cong: if_cong)

theorem priority_zero_is_default_witness:
  "compareItems id (baseItem\<lparr>priority := Some 0\<rparr>) (baseItem\<lparr>priority := Some 40\<rparr>) = Fin (- 10)
   \<and> compareItems id (baseItem\<lparr>priority := None\<rparr>) (baseItem\<lparr>priority := Some 40\<rparr>) = Fin (- 10)"
  using priority_zero_is_default [of id baseItem "baseItem\<lparr>priority := Some 40\<rparr>"]
  by (simp add: compareItems_def hasActivity_def scoreOrNegInf_def priorityOr50_def Let_def baseItem_def)

section \<open>Recency boosting\<close>

lemma recency_bounds:
  "recencyScore now (now - oneHour) = 0" "recencyScore now now = 1"
  by (simp_all add: recencyScore_def oneHour_def)

lemma truthy_some: "files u = Some t \<Longrightarrow> t \<noteq> 0 \<Longrightarrow> truthyTimestamp files u = Some t"
  by (simp add: truthyTimestamp_def)

lemma boostByFile_keeps:
  "type (boostByFile w files now item) = type item"
  "activityScore (boostByFile w files now item) = activityScore item"
  by (auto simp: boostByFile_def scaleScore_def split: option.splits)

lemma boost_file:
  assumes "type item = File" "uri item = Some u" "files u = Some t" "t \<noteq> 0" "score item = Some s"
  shows "score (boostItem w files now item) = Some (s * (1 + recencyScore now t * w))"
  using assms
  by (simp add: boostItem_def boostByActivity_def boostByFile_def scaleScore_def truthy_some tag_distinct)

lemma boost_symbol_in_file:
  assumes "type item = Symbol \<or> type item = Class" "uri item = Some u" "files u = Some t" "t \<noteq> 0"
    "score item = Some s" "activityScore item = None"
  shows "score (boostItem w files now item) = Some (s * (1 + recencyScore now t * w * 0.8))"
  using assms
  by (auto simp: boostItem_def boostByActivity_def boostByFile_def scaleScore_def truthy_some tag_distinct)

lemma boost_symbol_activity:
  assumes "type item = Symbol \<or> type item = Class" "activityScore item = Some ts"
    "score (boostByFile w files now item) = Some s1"
  shows "score (boostItem w files now item)
     = Some (s1 * (1 + recencyScore now ts * w * 1.5) + recencyScore now ts * 0.4)"
  using assms
  by (auto simp: boostItem_def boostByActivity_def boostByFile_keeps Let_def)

lemma boostByFile_untouched:
  assumes "uri item = None \<or> (\<exists>u. uri item = Some u \<and> truthyTimestamp files u = None)"
  shows "boostByFile w files now item = item"
  using assms by (auto simp: boostByFile_def)

lemma boostByFile_symbol:
  assumes "type item = Symbol \<or> type item = Class" "uri item = Some u" "files u = Some t" "t \<noteq> 0"
    "score item = Some s"
  shows "score (boostByFile w files now item) = Some (s * (1 + recencyScore now t * w * 0.8))"
  using assms
  by (auto simp: boostByFile_def scaleScore_def truthy_some tag_distinct)

lemma boost_no_score:
  assumes "score item = None"
  shows "boostItem w files now item = item"
proof -
  have "boostByFile w files now item = item"
    using assms by (auto simp: boostByFile_def scaleScore_def split: option.splits)
  then show ?thesis using assms by (simp add: boostItem_def boostByActivity_def Let_def)
qed

text \<open>
  C5. \<open>boostRecentlyModifiedItems\<close> applies \<open>boostItem\<close> to every result. The recency
  score is \<open>max(0, 1 - age / 1 hour)\<close>: 0 for a timestamp exactly one hour old, 1 for a
  timestamp of this instant. For an item with a numeric score: a File item whose uri has
  a (non-zero) timestamp in the recently-modified map has its score multiplied by
  \<open>1 + recency * weight\<close>; a Symbol or Class item whose uri has one has its score
  multiplied by \<open>1 + recency * weight * 0.8\<close>; a Symbol or Class item with its own
  \<open>activityScore\<close> has its score multiplied by \<open>1 + recency * weight * 1.5\<close> and then
  increased by \<open>recency * 0.4\<close>, on top of the file boost when both apply. An item
  without a numeric score is left as it is.
\<close>

theorem recency_boost:
  "recencyScore now (now - oneHour) = 0 \<and> recencyScore now now = 1
   \<and> recencyScore now t = max 0 (1 - (now - t) / (60 * 60 * 1000))
   \<and> (type item = File \<and> uri item = Some u \<and> files u = Some t \<and> t \<noteq> 0 \<and> score item = Some s \<longrightarrow>
        score (boostItem w files now item) = Some (s * (1 + recencyScore now t * w)))
   \<and> ((type item = Symbol \<or> type item = Class) \<and> uri item = Some u \<and> files u = Some t \<and> t \<noteq> 0
        \<and> score item = Some s \<and> activityScore item = None \<longrightarrow>
        score (boostItem w files now item) = Some (s * (1 + recencyScore now t * w * 0.8)))
   \<and> ((type item = Symbol \<or> type item = Class) \<and> activityScore item = Some ts \<and> score item = Some s
        \<and> (uri item = None \<or> (\<exists>u'. uri item = Some u' \<and> files u' = None)) \<longrightarrow>
        score (boostItem w files now item)
          = Some (s * (1 + recencyScore now ts * w * 1.5) + recencyScore now ts * 0.4))
   \<and> ((type item = Symbol \<or> type item = Class) \<and> activityScore item = Some ts \<and> score item = Some s
        \<and> uri item = Some u \<and> files u = Some t \<and> t \<noteq> 0 \<longrightarrow>
        score (boostItem w files now item)
          = Some (s * (1 + recencyScore now t * w * 0.8) * (1 + recencyScore now ts * w * 1.5)
                  + recencyScore now ts * 0.4))
   \<and> (score item = None \<longrightarrow> boostItem w files now item = item)
   \<and> boostRecentlyModifiedItems w files now results = map (boostItem w files now) results"
proof -
  have 1: "recencyScore now (now - oneHour) = 0 \<and> recencyScore now now = 1
     \<and> recencyScore now t = max 0 (1 - (now - t) / (60 * 60 * 1000))"
    by (simp add: recency_bounds) (simp add: recencyScore_def oneHour_def)
  have 2: "type item = File \<and> uri item = Some u \<and> files u = Some t \<and> t \<noteq> 0 \<and> score item = Some s \<longrightarrow>
        score (boostItem w files now item) = Some (s * (1 + recencyScore now t * w))"
    using boost_file by blast
  have 3: "(type item = Symbol \<or> type item = Class) \<and> uri item = Some u \<and> files u = Some t \<and> t \<noteq> 0
        \<and> score item = Some s \<and> activityScore item = None \<longrightarrow>
        score (boostItem w files now item) = Some (s * (1 + recencyScore now t * w * 0.8))"
    using boost_symbol_in_file by blast
  have 4: "(type item = Symbol \<or> type item = Class) \<and> activityScore item = Some ts \<and> score item = Some s
        \<and> (uri item = None \<or> (\<exists>u'. uri item = Some u' \<and> files u' = None)) \<longrightarrow>
        score (boostItem w files now item)
          = Some (s * (1 + recencyScore now ts * w * 1.5) + recencyScore now ts * 0.4)"
  proof
    assume h: "(type item = Symbol \<or> type item = Class) \<and> activityScore item = Some ts \<and> score item = Some s
        \<and> (uri item = None \<or> (\<exists>u'. uri item = Some u' \<and> files u' = None))"
    then have "boostByFile w files now item = item"
      by (intro boostByFile_untouched) (auto simp: truthyTimestamp_def)
    with h have "score (boostByFile w files now item) = Some s" by simp
    with h show "score (boostItem w files now item)
          = Some (s * (1 + recencyScore now ts * w * 1.5) + recencyScore now ts * 0.4)"
      by (intro boost_symbol_activity) auto
  qed
  have 5: "(type item = Symbol \<or> type item = Class) \<and> activityScore item = Some ts \<and> score item = Some s
        \<and> uri item = Some u \<and> files u = Some t \<and> t \<noteq> 0 \<longrightarrow>
        score (boostItem w files now item)
          = Some (s * (1 + recencyScore now t * w * 0.8) * (1 + recencyScore now ts * w * 1.5)
                  + recencyScore now ts * 0.4)"
  proof
    assume h: "(type item = Symbol \<or> type item = Class) \<and> activityScore item = Some ts \<and> score item = Some s
        \<and> uri item = Some u \<and> files u = Some t \<and> t \<noteq> 0"
    then have "score (boostByFile w files now item) = Some (s * (1 + recencyScore now t * w * 0.8))"
      by (intro boostByFile_symbol) auto
    with h show "score (boostItem w files now item)
          = Some (s * (1 + recencyScore now t * w * 0.8) * (1 + recencyScore now ts * w * 1.5)
                  + recencyScore now ts * 0.4)"
      by (intro boost_symbol_activity) auto
  qed
  have 6: "score item = None \<longrightarrow> boostItem w files now item = item"
    using boost_no_score by blast
  have 7: "boostRecentlyModifiedItems w files now results = map (boostItem w files now) results"
    by (simp add: boostRecentlyModifiedItems_def)
  from 1 2 3 4 5 6 7 show ?thesis by blast
qed

theorem recency_boost_witness:
  "score (boostItem 0.5 [''file:///a.ts'' \<mapsto> exNow] exNow exFile) = Some 3
   \<and> score (boostItem 0.5 [''file:///a.ts'' \<mapsto> exNow - oneHour] exNow exFile) = Some 2
   \<and> score (boostItem 0.5 [''file:///a.ts'' \<mapsto> exNow] exNow (exMethod\<lparr>activityScore := None\<rparr>)) = Some 2.8
   \<and> score (boostItem 0.5 Map.empty exNow exMethod) = Some 2.95
   \<and> score (boostItem 0.5 [''file:///a.ts'' \<mapsto> exNow] exNow exMethod) = Some 4.05"
proof -
  have r: "recencyScore exNow (exNow - 1800000) = 0.5" "exNow \<noteq> 0" "exNow - oneHour \<noteq> 0"
    by (simp_all add: recencyScore_def oneHour_def exNow_def)
  have f: "type exFile = File" "uri exFile = Some ''file:///a.ts''" "score exFile = Some 2"
    by (simp_all add: exFile_def baseItem_def)
  have m: "type exMethod = Symbol" "uri exMethod = Some ''file:///a.ts''" "score exMethod = Some 2"
    "activityScore exMethod = Some (exNow - 1800000)"
    by (simp_all add: exMethod_def baseItem_def)
  have 1: "score (boostItem 0.5 [''file:///a.ts'' \<mapsto> exNow] exNow exFile) = Some 3"
    using recency_boost [where item = exFile and files = "[''file:///a.ts'' \<mapsto> exNow]"
        and u = "''file:///a.ts''" and t = exNow and s = 2 and w = "0.5" and now = exNow] r f
    by simp
  have 2: "score (boostItem 0.5 [''file:///a.ts'' \<mapsto> exNow - oneHour] exNow exFile) = Some 2"
    using recency_boost [where item = exFile and files = "[''file:///a.ts'' \<mapsto> exNow - oneHour]"
        and u = "''file:///a.ts''" and t = "exNow - oneHour" and s = 2 and w = "0.5" and now = exNow] r f
    by simp
  have 3: "score (boostItem 0.5 [''file:///a.ts'' \<mapsto> exNow] exNow (exMethod\<lparr>activityScore := None\<rparr>)) = Some 2.8"
    using recency_boost [where item = "exMethod\<lparr>activityScore := None\<rparr>" and files = "[''file:///a.ts'' \<mapsto> exNow]"
        and u = "''file:///a.ts''" and t = exNow and s = 2 and w = "0.5" and now = exNow] r m
    by simp
  have 4: "score (boostItem 0.5 Map.empty exNow exMethod) = Some 2.95"
    using recency_boost [where item = exMethod and files = Map.empty
        and ts = "exNow - 1800000" and s = 2 and w = "0.5" and now = exNow] r m
    by simp
  have 5: "score (boostItem 0.5 [''file:///a.ts'' \<mapsto> exNow] exNow exMethod) = Some 4.05"
    using recency_boost [where item = exMethod and files = "[''file:///a.ts'' \<mapsto> exNow]"
        and u = "''file:///a.ts''" and t = exNow and ts = "exNow - 1800000" and s = 2 and w = "0.5" and now = exNow] r m
    by simp
  from 1 2 3 4 5 show ?thesis by blast
qed

section \<open>Cache serialization and the fuzzy adapters\<close>

lemma newRange_id:
  "isBeforeOrEqual (start r) (endp r) \<Longrightarrow>
   newRange (line (start r)) (character (start r)) (line (endp r)) (character (endp r)) = r"
  by (simp add: newRange_def isBeforeOrEqual_def)

lemma file_round_trip:
  assumes "isFileSearchItem item"
  shows "\<exists>s. serializeFileItem item = Some s
     \<and> deserializeFileItem fsPath s
        = item\<lparr>iconPath := Some (getFileIcon (lastSegment isPathSeparator (fsPath (the (uri item))))),
               action := ShowTextDocument (the (uri item)),
               score := None, activityScore := None, priority := None, relativePath := None\<rparr>"
  using assms
  by (auto simp: isFileSearchItem_def serializeFileItem_def deserializeFileItem_def Let_def)

lemma symbol_round_trip:
  assumes "isSymbolSearchItem item"
  shows "\<exists>s. serializeSymbolItem item = Some s
     \<and> deserializeSymbolItem s
        = item\<lparr>iconPath := Some (getSymbolIcon (symbolKind item)),
               action := RevealRange (the (uri item)) (the (range' item)),
               score := None, activityScore := None\<rparr>
     \<and> deserializeWorkspaceSymbolItem s = deserializeSymbolItem s"
  using assms
  by (auto simp: isSymbolSearchItem_def serializeSymbolItem_def deserializeSymbolItem_def
      deserializeWorkspaceSymbolItem_def symbolItemOf_def Let_def newRange_id Class_def Symbol_def)

text \<open>
  C7 (as amended). Serializing and then deserializing a File item reproduces \<open>id\<close>,
  \<open>label\<close>, \<open>description\<close>, \<open>detail\<close>, \<open>type\<close> and \<open>uri\<close>; doing so with a Symbol or Class
  item (through either symbol provider) reproduces these and \<open>range\<close>, \<open>symbolKind\<close>,
  \<open>symbolGroup\<close> and \<open>priority\<close>. \<open>score\<close> and \<open>activityScore\<close> are absent afterwards,
  for a File item also \<open>priority\<close> and \<open>relativePath\<close>; \<open>iconPath\<close> and \<open>action\<close> are
  regenerated from the uri (and the symbol kind and range).
\<close>

theorem cache_round_trip:
  "(isFileSearchItem item \<longrightarrow>
      (\<exists>s. serializeFileItem item = Some s
         \<and> deserializeFileItem fsPath s
            = item\<lparr>iconPath := Some (getFileIcon (lastSegment isPathSeparator (fsPath (the (uri item))))),
                   action := ShowTextDocument (the (uri item)),
                   score := None, activityScore := None, priority := None, relativePath := None\<rparr>))
   \<and> (isSymbolSearchItem item \<longrightarrow>
      (\<exists>s. serializeSymbolItem item = Some s
         \<and> deserializeSymbolItem s
            = item\<lparr>iconPath := Some (getSymbolIcon (symbolKind item)),
                   action := RevealRange (the (uri item)) (the (range' item)),
                   score := None, activityScore := None\<rparr>
         \<and> deserializeWorkspaceSymbolItem s = deserializeSymbolItem s))"
  using file_round_trip symbol_round_trip by blast

theorem cache_round_trip_witness:
  "deserializeFileItem exFsPath (the (serializeFileItem exCachedFile))
     = exCachedFile\<lparr>score := None, activityScore := None\<rparr>
   \<and> deserializeSymbolItem (the (serializeSymbolItem exCachedSymbol))
     = exCachedSymbol\<lparr>score := None, activityScore := None\<rparr>"
proof -
  have f: "isFileSearchItem exCachedFile"
    by (simp add: isFileSearchItem_def exCachedFile_def baseItem_def)
  have s: "isSymbolSearchItem exCachedSymbol"
    by (simp add: isSymbolSearchItem_def exCachedSymbol_def exClass_def baseItem_def
        isBeforeOrEqual_def)
  have i: "getFileIcon (lastSegment isPathSeparator (exFsPath ''file:///w/src/a.ts'')) = ''file-code''"
    by (simp add: getFileIcon_def lastSegment_def isPathSeparator_def exFsPath_def
        toLowerCase_def toLowerChar_def Let_def)
  have k: "getSymbolIcon (Some 4) = ''symbol-class''"
    by (simp add: getSymbolIcon_def symbolIcons_def)
  from cache_round_trip [of exCachedFile exFsPath] f s i
  have 1: "deserializeFileItem exFsPath (the (serializeFileItem exCachedFile))
     = exCachedFile\<lparr>score := None, activityScore := None\<rparr>"
    by (auto simp: exCachedFile_def baseItem_def)
  from cache_round_trip [of exCachedSymbol exFsPath] f s k
  have 2: "deserializeSymbolItem (the (serializeSymbolItem exCachedSymbol))
     = exCachedSymbol\<lparr>score := None, activityScore := None\<rparr>"
    by (auto simp: exCachedSymbol_def exClass_def baseItem_def)
  from 1 2 show ?thesis by blast
qed

text \<open>
  The claim as stated names only \<open>score\<close> and \<open>action\<close> as lost. An item that carries an
  \<open>activityScore\<close> (as every item does once it was selected, or once the persisted
  timestamps were applied) comes back without it, and a File item also loses
  \<open>priority\<close> and \<open>relativePath\<close>.
\<close>

theorem cache_round_trip_counterexample:
  "isFileSearchItem exCachedFile
   \<and> activityScore (deserializeFileItem exFsPath (the (serializeFileItem exCachedFile)))
       \<noteq> activityScore exCachedFile
   \<and> isSymbolSearchItem exCachedSymbol
   \<and> activityScore (deserializeSymbolItem (the (serializeSymbolItem exCachedSymbol)))
       \<noteq> activityScore exCachedSymbol
   \<and> isFileSearchItem (exCachedFile\<lparr>priority := Some 80, relativePath := Some ''src/a.ts''\<rparr>)
   \<and> priority (deserializeFileItem exFsPath
         (the (serializeFileItem (exCachedFile\<lparr>priority := Some 80, relativePath := Some ''src/a.ts''\<rparr>))))
       = None
   \<and> relativePath (deserializeFileItem exFsPath
         (the (serializeFileItem (exCachedFile\<lparr>priority := Some 80, relativePath := Some ''src/a.ts''\<rparr>))))
       = None"
  by (simp add: isFileSearchItem_def isSymbolSearchItem_def exCachedFile_def exCachedSymbol_def
      exClass_def baseItem_def isBeforeOrEqual_def serializeFileItem_def deserializeFileItem_def
      serializeSymbolItem_def deserializeSymbolItem_def symbolItemOf_def Let_def
      File_def Class_def Symbol_def)

text \<open>
  C9. Every item made by the document-symbol provider's \<open>deserializeSymbolItem\<close> is
  tagged Symbol or Class: the serialized tag \<open>class\<close> gives Class and every other string
  (\<open>file\<close>, a corrupted value) gives Symbol, so a cached document-symbol entry never
  becomes a File-typed item; it always has a uri and a range.
\<close>

theorem deserialized_symbol_type:
  "(type (deserializeSymbolItem s) = Symbol \<or> type (deserializeSymbolItem s) = Class)
   \<and> type (deserializeSymbolItem s) = (if ss_type s = ''class'' then Class else Symbol)
   \<and> type (deserializeSymbolItem s) \<noteq> File
   \<and> uri (deserializeSymbolItem s) \<noteq> None \<and> range' (deserializeSymbolItem s) \<noteq> None"
  by (simp add: deserializeSymbolItem_def symbolItemOf_def Let_def File_def Class_def Symbol_def)

theorem deserialized_symbol_type_witness:
  "type (deserializeSymbolItem exCorrupted) = Symbol
   \<and> type (deserializeSymbolItem (exCorrupted\<lparr>ss_type := ''class''\<rparr>)) = Class
   \<and> type (deserializeSymbolItem (exCorrupted\<lparr>ss_type := ''klass''\<rparr>)) = Symbol
   \<and> type (deserializeWorkspaceSymbolItem exCorrupted) = File"
  using deserialized_symbol_type [of exCorrupted]
    deserialized_symbol_type [of "exCorrupted\<lparr>ss_type := ''class''\<rparr>"]
    deserialized_symbol_type [of "exCorrupted\<lparr>ss_type := ''klass''\<rparr>"]
  by (simp add: exCorrupted_def deserializeWorkspaceSymbolItem_def symbolItemOf_def Let_def File_def)

lemma slice0_nonneg: "0 \<le> n \<Longrightarrow> slice0 xs n = take (nat n) xs"
  by (auto simp: slice0_def Let_def min_def)

lemma slice0_max: "slice0 xs MAX_SAFE_INTEGER = take (nat MAX_SAFE_INTEGER) xs"
  by (rule slice0_nonneg) (simp add: MAX_SAFE_INTEGER_def)

lemma trim_empty_iff: "trim s = [] \<longleftrightarrow> (\<forall>c \<in> set s. isWhiteSpace c)"
proof
  assume "trim s = []"
  then have a: "\<forall>x \<in> set (dropWhile isWhiteSpace s). isWhiteSpace x"
    by (simp add: trim_def dropWhile_eq_Nil_conv)
  have "dropWhile isWhiteSpace s = []"
  proof (rule ccontr)
    assume n: "dropWhile isWhiteSpace s \<noteq> []"
    then have "\<not> isWhiteSpace (hd (dropWhile isWhiteSpace s))" by (rule hd_dropWhile)
    moreover from n have "hd (dropWhile isWhiteSpace s) \<in> set (dropWhile isWhiteSpace s)" by simp
    ultimately show False using a by blast
  qed
  then show "\<forall>c \<in> set s. isWhiteSpace c" by (simp add: dropWhile_eq_Nil_conv)
next
  assume "\<forall>c \<in> set s. isWhiteSpace c"
  then have d: "dropWhile isWhiteSpace s = []" by simp
  show "trim s = []" unfolding trim_def d by simp
qed

text \<open>
  C8. For both adapters, \<open>search(items, query, limit)\<close> with a query that is empty or
  consists of white space only returns the first \<open>limit\<close> items of the input (for a
  limit that is not negative) and, when no limit is given, the first
  \<open>Number.MAX_SAFE_INTEGER\<close> of them, which is all of them for any array JavaScript can
  hold; no score is set or changed: the items after the call are the items before it.
\<close>

theorem empty_query_unscored:
  "(trim query = [] \<and> 0 \<le> n \<longrightarrow>
      fuzzysortSearch go items query (Some n) = (take (nat n) items, items)
    \<and> fuzzaldrinSearch filterLib scoreLib items query (Some n) = (take (nat n) items, items))
   \<and> (trim query = [] \<longrightarrow>
      fuzzysortSearch go items query None = (take (2 ^ 53 - 1) items, items)
    \<and> fuzzaldrinSearch filterLib scoreLib items query None = (take (2 ^ 53 - 1) items, items))
   \<and> (trim query = [] \<and> length items < 2 ^ 53 \<longrightarrow>
      fuzzysortSearch go items query None = (items, items)
    \<and> fuzzaldrinSearch filterLib scoreLib items query None = (items, items))
   \<and> (trim query = [] \<longleftrightarrow> (\<forall>c \<in> set query. isWhiteSpace c))"
proof -
  have m: "nat MAX_SAFE_INTEGER = 2 ^ 53 - 1"
    by (simp add: MAX_SAFE_INTEGER_def)
  have t: "trim query = [] \<longleftrightarrow> (\<forall>c \<in> set query. isWhiteSpace c)"
    by (rule trim_empty_iff)
  have l: "take (2 ^ 53 - 1) items = items" if "length items < 2 ^ 53"
    using that by simp
  show ?thesis
    unfolding t [symmetric]
    by (auto simp: fuzzysortSearch_def fuzzaldrinSearch_def slice0_nonneg slice0_max m l)
qed

theorem empty_query_unscored_witness:
  "fuzzysortSearch (\<lambda>q ts l. [(0, - 10)]) [exA, exB, exC] '' '' (Some 2)
     = ([exA, exB], [exA, exB, exC])
   \<and> fuzzaldrinSearch (\<lambda>ts q l. [0]) (\<lambda>t q. 1) [exA, exB, exC] [] None
     = ([exA, exB, exC], [exA, exB, exC])
   \<and> fuzzysortSearch (\<lambda>q ts l. [(0, - 10)]) [exA, exB, exC] [CHR 0x09, CHR 0x20] (Some 0)
     = ([], [exA, exB, exC])"
  using empty_query_unscored [of "'' ''" 2 "\<lambda>q ts l. [(0, - 10)]" "[exA, exB, exC]" "\<lambda>ts q l. [0]" "\<lambda>t q. 1"]
    empty_query_unscored [of "[]" 2 "\<lambda>q ts l. [(0, - 10)]" "[exA, exB, exC]" "\<lambda>ts q l. [0]" "\<lambda>t q. 1"]
    empty_query_unscored [of "[CHR 0x09, CHR 0x20]" 0 "\<lambda>q ts l. [(0, - 10)]" "[exA, exB, exC]" "\<lambda>ts q l. [0]" "\<lambda>t q. 1"]
  by (simp add: trim_def isWhiteSpace_def)

section \<open>Cache validation\<close>

lemma partition_step:
  "partitionEntry fsPath (fileCachedMtime c) (fileCachedItem c) (un, ti) e =
     (if fileFresh c e
      then (un @ [deserializeFileItem fsPath (the (fileCachedItem c (fst e)))], ti)
      else (un, ti @ [fst e]))"
  by (cases "fileCachedMtime c (fst e)"; cases "fileCachedItem c (fst e)")
     (simp_all add: partitionEntry_def Let_def fileFresh_def)

lemma partition_fold:
  "foldl (partitionEntry fsPath (fileCachedMtime c) (fileCachedItem c)) (un, ti) es =
     (un @ map (\<lambda>e. deserializeFileItem fsPath (the (fileCachedItem c (fst e))))
             (filter (fileFresh c) es),
      ti @ map fst (filter (\<lambda>e. \<not> fileFresh c e) es))"
proof (induction es arbitrary: un ti)
  case Nil
  then show ?case by simp
next
  case (Cons e es)
  show ?case
    by (simp add: partition_step Cons.IH)
qed

lemma docPartition_step:
  "docPartitionEntry (ds_files c) (items, n, ti) e =
     (if docFresh c e then (items @ docCachedSymbols c e, Suc n, ti) else (items, n, ti @ [e]))"
  by (cases "ds_files c (fst e)")
     (simp_all add: docPartitionEntry_def Let_def docFresh_def docCachedSymbols_def)

lemma docPartition_fold:
  "foldl (docPartitionEntry (ds_files c)) (items, n, ti) es =
     (items @ concat (map (docCachedSymbols c) (filter (docFresh c) es)),
      n + length (filter (docFresh c) es),
      ti @ filter (\<lambda>e. \<not> docFresh c e) es)"
proof (induction es arbitrary: items n ti)
  case Nil
  then show ?case by simp
next
  case (Cons e es)
  show ?case
    by (simp add: docPartition_step Cons.IH)
qed

lemma index_files_fold:
  "foldl (\<lambda>items e. if ex (fst e) then items else items @ ix (fst e)) items batch
     = items @ concat (map (\<lambda>e. ix (fst e)) (filter (\<lambda>e. \<not> ex (fst e)) batch))"
  by (induction batch arbitrary: items) auto

lemma indexBatch_fst:
  "fst (indexBatch ex ix acc batch)
     = fst acc @ concat (map (\<lambda>e. ix (fst e)) (filter (\<lambda>e. \<not> ex (fst e)) batch))"
  by (simp add: indexBatch_def Let_def index_files_fold)

lemma indexBatch_fold_fst:
  "fst (foldl (indexBatch ex ix) acc batches)
     = fst acc @ concat (map (\<lambda>e. ix (fst e)) (filter (\<lambda>e. \<not> ex (fst e)) (concat batches)))"
  by (induction batches arbitrary: acc) (simp_all add: indexBatch_fst)

lemma concat_chunks: "0 < n \<Longrightarrow> concat (chunks n xs) = xs"
proof (induction n xs rule: chunks.induct)
  case (1 n xs)
  then show ?case by (subst chunks.simps) auto
qed

subsection \<open>The files that the file provider indexes again\<close>

lemma group_update_other:
  "folder \<notin> fst ` set m
     \<Longrightarrow> map (\<lambda>(g, l'). if g = folder then (g, l' @ [u]) else (g, l')) m = m"
  by (induction m) auto

lemma group_update_mset:
  "distinct (map fst m) \<Longrightarrow> map_of m folder = Some l
     \<Longrightarrow> mset (concat (map (\<lambda>(g, us). map (f g) us)
                 (map (\<lambda>(g, l'). if g = folder then (g, l' @ [u]) else (g, l')) m)))
         = add_mset (f folder u) (mset (concat (map (\<lambda>(g, us). map (f g) us) m)))"
proof (induction m)
  case Nil
  then show ?case by simp
next
  case (Cons e m)
  obtain g us where e: "e = (g, us)" by (cases e)
  show ?case
  proof (cases "g = folder")
    case True
    with Cons.prems e have "folder \<notin> fst ` set m" by auto
    then show ?thesis using True e by (simp add: group_update_other)
  next
    case False
    with Cons.prems e have "distinct (map fst m)" "map_of m folder = Some l" by auto
    then show ?thesis using False e Cons.IH by simp
  qed
qed

lemma group_update_keys:
  "map fst (map (\<lambda>(g, l'). if g = folder then (g, l' @ [u]) else (g, l')) m) = map fst m"
  by (induction m) auto

lemma groupUri_step:
  assumes d: "distinct (map fst m)"
  shows "distinct (map fst (groupUri folders m u))"
    and "mset (concat (map (\<lambda>(g, us). map (f g) us) (groupUri folders m u)))
         = mset (concat (map (\<lambda>(g, us). map (f g) us) m))
           + mset (map (\<lambda>u. f (the (folderOf folders u)) u)
                    (filter (\<lambda>u. folderOf folders u \<noteq> None) [u]))"
proof -
  show "distinct (map fst (groupUri folders m u))"
  proof (cases "find (\<lambda>f. startsWith u f) folders")
    case None
    then show ?thesis using d by (simp add: groupUri_def)
  next
    case (Some folder)
    show ?thesis
    proof (cases "map_of m folder")
      case None
      then have "folder \<notin> fst ` set m" by (simp add: map_of_eq_None_iff)
      with Some None d show ?thesis by (simp add: groupUri_def)
    next
      case (Some l)
      with \<open>find (\<lambda>f. startsWith u f) folders = Some folder\<close>
      have "groupUri folders m u
            = map (\<lambda>(g, l'). if g = folder then (g, l' @ [u]) else (g, l')) m"
        by (simp add: groupUri_def)
      then show ?thesis using d by (simp only: group_update_keys)
    qed
  qed
  show "mset (concat (map (\<lambda>(g, us). map (f g) us) (groupUri folders m u)))
         = mset (concat (map (\<lambda>(g, us). map (f g) us) m))
           + mset (map (\<lambda>u. f (the (folderOf folders u)) u)
                    (filter (\<lambda>u. folderOf folders u \<noteq> None) [u]))"
  proof (cases "find (\<lambda>f. startsWith u f) folders")
    case None
    then show ?thesis by (simp add: groupUri_def folderOf_def)
  next
    case (Some folder)
    note fo = this
    show ?thesis
    proof (cases "map_of m folder")
      case None
      with fo show ?thesis by (simp add: groupUri_def folderOf_def)
    next
      case (Some l)
      have "mset (concat (map (\<lambda>(g, us). map (f g) us)
                 (map (\<lambda>(g, l'). if g = folder then (g, l' @ [u]) else (g, l')) m)))
         = add_mset (f folder u) (mset (concat (map (\<lambda>(g, us). map (f g) us) m)))"
        using d Some by (rule group_update_mset)
      with fo Some show ?thesis by (simp add: groupUri_def folderOf_def)
    qed
  qed
qed

lemma groupUri_fold:
  "distinct (map fst m)
     \<Longrightarrow> distinct (map fst (foldl (groupUri folders) m uris))
       \<and> mset (concat (map (\<lambda>(g, us). map (f g) us) (foldl (groupUri folders) m uris)))
         = mset (concat (map (\<lambda>(g, us). map (f g) us) m))
           + mset (map (\<lambda>u. f (the (folderOf folders u)) u)
                    (filter (\<lambda>u. folderOf folders u \<noteq> None) uris))"
proof (induction uris arbitrary: m)
  case Nil
  then show ?case by simp
next
  case (Cons u uris)
  note step1 = groupUri_step(1) [OF Cons.prems, where folders = folders and u = u]
  note step2 = groupUri_step(2) [OF Cons.prems, where folders = folders and u = u and f = f]
  from Cons.IH [OF step1] step2 show ?case by simp
qed

text \<open>
  What \<open>groupUrisByFolder\<close> and \<open>processFileBatch\<close> make of the uris to index: one item
  for each uri that is in a workspace folder, built for the first such folder.
\<close>

lemma grouped_items:
  "mset (concat (map (\<lambda>(g, us). map (f g) us) (groupUrisByFolder folders uris)))
     = mset (map (\<lambda>u. f (the (folderOf folders u)) u)
               (filter (\<lambda>u. folderOf folders u \<noteq> None) uris))"
  using groupUri_fold [of "[]" folders uris f] by (simp add: groupUrisByFolder_def)

lemma processed_groups:
  "foldl (\<lambda>items (folder, uris). processFileBatch fsPath items uris folder) items groups
     = items @ concat (map (\<lambda>(folder, uris). map (fileItemOf fsPath folder) uris) groups)"
  by (induction groups arbitrary: items) (auto simp: processFileBatch_def)

lemma key_comparator_consistent: "consistentComparator (\<lambda>a b. Fin (k b - k a :: real)) S"
  unfolding consistentComparator_def by auto

lemma file_used_iff:
  "fileRefreshFromCacheOrFull sortFn fsPath folders cache fp cur \<noteq> None
     \<longleftrightarrow> (\<exists>c. cache = Some c \<and> fi_version c = CACHE_VERSION \<and> fi_workspaceFingerprint c = fp)"
  by (cases cache) (auto simp: fileRefreshFromCacheOrFull_def Let_def)

lemma file_partial:
  assumes "fileRefreshFromCacheOrFull sortFn fsPath folders (Some c) fp cur = Some r"
  shows "fr_toIndex r = map fst (filter (\<lambda>e. \<not> fileFresh c e) cur)"
    and "fr_unchanged r = map (\<lambda>e. deserializeFileItem fsPath (the (fileCachedItem c (fst e))))
                            (filter (fileFresh c) cur)"
    and "fr_fileItems r
          = sortFn (\<lambda>a b. Fin (currentMtime cur b - currentMtime cur a))
              (fr_unchanged r
               @ concat (map (\<lambda>(folder, uris). map (fileItemOf fsPath folder) uris)
                           (groupUrisByFolder folders (fr_toIndex r))))"
proof -
  from assms have v: "fi_version c = CACHE_VERSION" "fi_workspaceFingerprint c = fp"
    by (auto simp: fileRefreshFromCacheOrFull_def split: if_splits)
  let ?parts = "foldl (partitionEntry fsPath (fileCachedMtime c) (fileCachedItem c)) ([], []) cur"
  from assms v have r: "fr_toIndex r = snd ?parts" "fr_unchanged r = fst ?parts"
    "fr_fileItems r = sortFn
        (\<lambda>a b. Fin ((case jsMap cur (the (uri b)) of Some m \<Rightarrow> m | None \<Rightarrow> 0)
                   - (case jsMap cur (the (uri a)) of Some m \<Rightarrow> m | None \<Rightarrow> 0)))
        (foldl (\<lambda>items (folder, uris). processFileBatch fsPath items uris folder)
           (fst ?parts) (groupUrisByFolder folders (snd ?parts)))"
    by (auto simp: fileRefreshFromCacheOrFull_def Let_def fileCachedMtime_def fileCachedItem_def)
  show "fr_toIndex r = map fst (filter (\<lambda>e. \<not> fileFresh c e) cur)"
    by (simp add: r partition_fold)
  show "fr_unchanged r = map (\<lambda>e. deserializeFileItem fsPath (the (fileCachedItem c (fst e))))
                            (filter (fileFresh c) cur)"
    by (simp add: r partition_fold)
  show "fr_fileItems r
          = sortFn (\<lambda>a b. Fin (currentMtime cur b - currentMtime cur a))
              (fr_unchanged r
               @ concat (map (\<lambda>(folder, uris). map (fileItemOf fsPath folder) uris)
                           (groupUrisByFolder folders (fr_toIndex r))))"
    unfolding r(3) processed_groups currentMtime_def r(1,2) ..
qed

text \<open>
  What \<open>this.fileItems\<close> holds after the refresh: the items reused from the cache and
  one new item for every file to index (that is in a workspace folder), newest first.
\<close>

lemma file_items:
  assumes used: "fileRefreshFromCacheOrFull sortFn fsPath folders (Some c) fp cur = Some r"
    and cs: "conformingSort sortFn"
  shows "mset (fr_fileItems r)
          = mset (fr_unchanged r)
            + mset (map (\<lambda>u. fileItemOf fsPath (the (folderOf folders u)) u)
                     (filter (\<lambda>u. folderOf folders u \<noteq> None) (fr_toIndex r)))"
    and "sorted_wrt (\<lambda>a b. currentMtime cur b \<le> currentMtime cur a) (fr_fileItems r)"
    and "set (fr_unchanged r) \<subseteq> set (fr_fileItems r)"
proof -
  let ?cmp = "\<lambda>a b. Fin (currentMtime cur b - currentMtime cur a)"
  let ?all = "fr_unchanged r
               @ concat (map (\<lambda>(folder, uris). map (fileItemOf fsPath folder) uris)
                           (groupUrisByFolder folders (fr_toIndex r)))"
  have items: "fr_fileItems r = sortFn ?cmp ?all" by (rule file_partial(3) [OF used])
  show m: "mset (fr_fileItems r)
          = mset (fr_unchanged r)
            + mset (map (\<lambda>u. fileItemOf fsPath (the (folderOf folders u)) u)
                     (filter (\<lambda>u. folderOf folders u \<noteq> None) (fr_toIndex r)))"
    unfolding items conforming_mset [OF cs]
    by (simp add: grouped_items [of "fileItemOf fsPath" folders "fr_toIndex r"])
  have "sorted_wrt (\<lambda>a b. \<not> isNegative (?cmp b a)) (sortFn ?cmp ?all)"
    by (rule conforming_sorted [OF cs key_comparator_consistent])
  then show "sorted_wrt (\<lambda>a b. currentMtime cur b \<le> currentMtime cur a) (fr_fileItems r)"
    unfolding items by (simp add: not_less)
  have "set_mset (mset (fr_unchanged r)) \<subseteq> set_mset (mset (fr_fileItems r))"
    unfolding m by simp
  then show "set (fr_unchanged r) \<subseteq> set (fr_fileItems r)" by simp
qed

lemma symbol_used:
  assumes "tryLoadFromCache cache fp man = Some items"
  shows "\<exists>c. cache = Some c \<and> ws_version c = CACHE_VERSION \<and> ws_workspaceFingerprint c = fp
           \<and> length man = length (ws_manifest c)
           \<and> list_all (\<lambda>e. symbolCachedMtime c (m_uri e) = Some (m_mtime e)) man
           \<and> items = map deserializeWorkspaceSymbolItem (ws_items c)"
  using assms
  by (cases cache)
     (auto simp: tryLoadFromCache_def Let_def symbolCachedMtime_def list_ex_iff list_all_iff
        split: if_splits)

lemma symbol_any_mismatch:
  assumes "e \<in> set man" "symbolCachedMtime c (m_uri e) \<noteq> Some (m_mtime e)"
  shows "tryLoadFromCache (Some c) fp man = None"
    and "runRefreshInternal force hasStorage (Some c) fp man full = full"
proof -
  show 1: "tryLoadFromCache (Some c) fp man = None"
    using assms
    by (auto simp: tryLoadFromCache_def Let_def symbolCachedMtime_def list_ex_iff)
  show "runRefreshInternal force hasStorage (Some c) fp man full = full"
    by (simp add: runRefreshInternal_def 1)
qed

lemma doc_used_iff:
  "docRefreshFromCacheOrFull ex ix cache fp cur \<noteq> None
     \<longleftrightarrow> (\<exists>c. cache = Some c \<and> ds_version c = CACHE_VERSION \<and> ds_workspaceFingerprint c = fp)"
  by (cases cache) (auto simp: docRefreshFromCacheOrFull_def Let_def)

lemma doc_partial:
  assumes "docRefreshFromCacheOrFull ex ix (Some c) fp cur = Some r"
  shows "dr_toIndex r = filter (\<lambda>e. \<not> docFresh c e) cur"
    and "dr_symbolItems r
          = concat (map (docCachedSymbols c) (filter (docFresh c) cur))
            @ concat (map (\<lambda>e. ix (fst e)) (filter (\<lambda>e. \<not> ex (fst e)) (dr_toIndex r)))"
proof -
  from assms have v: "ds_version c = CACHE_VERSION" "ds_workspaceFingerprint c = fp"
    by (auto simp: docRefreshFromCacheOrFull_def split: if_splits)
  let ?parts = "foldl (docPartitionEntry (ds_files c)) ([], 0, []) cur"
  from assms v have r: "dr_toIndex r = snd (snd ?parts)"
    "dr_symbolItems r = fst (foldl (indexBatch ex ix) (fst ?parts, []) (chunks 20 (snd (snd ?parts))))"
    by (auto simp: docRefreshFromCacheOrFull_def Let_def)
  show t: "dr_toIndex r = filter (\<lambda>e. \<not> docFresh c e) cur"
    by (simp add: r docPartition_fold)
  show "dr_symbolItems r
          = concat (map (docCachedSymbols c) (filter (docFresh c) cur))
            @ concat (map (\<lambda>e. ix (fst e)) (filter (\<lambda>e. \<not> ex (fst e)) (dr_toIndex r)))"
    unfolding r(2) indexBatch_fold_fst
    by (simp add: concat_chunks r(1) [symmetric]) (simp add: docPartition_fold)
qed

text \<open>
  C1 (as amended). Each provider uses its cache only if the cache's version and workspace
  fingerprint are the current ones (the file and document-symbol providers then always
  use it). For the workspace-symbols cache a single file whose current mtime differs from
  the mtime in the cached manifest invalidates the whole cache, and the refresh indexes
  everything anew. The document-symbols cache (a per-file map) and the file-index cache
  (a manifest list as well) tolerate a partial mismatch: the files whose cached mtime is
  the current one are reused from the cache and only the other files are indexed again.
  For the file index: the files to index are the current files that are not fresh in
  the cache, and the provider's items after the refresh are the cached items of the
  fresh files together with one newly built item for every file to index (that is in a
  workspace folder), and nothing else, ordered by current mtime, newest first; the
  latter for every sort that conforms to ECMAScript. For the document symbols: the
  symbols after the refresh are the cached symbols of the fresh files followed by the
  newly indexed symbols of the other files.
\<close>

theorem cache_validation:
  "(fileRefreshFromCacheOrFull sortFn fsPath folders fcache fp cur \<noteq> None
      \<longleftrightarrow> (\<exists>c. fcache = Some c \<and> fi_version c = CACHE_VERSION \<and> fi_workspaceFingerprint c = fp))
   \<and> (fileRefreshFromCacheOrFull sortFn fsPath folders (Some fc) fp cur = Some fr \<longrightarrow>
        fr_toIndex fr = map fst (filter (\<lambda>e. \<not> fileFresh fc e) cur)
      \<and> fr_unchanged fr = map (\<lambda>e. deserializeFileItem fsPath (the (fileCachedItem fc (fst e))))
                             (filter (fileFresh fc) cur)
      \<and> (conformingSort sortFn \<longrightarrow>
            mset (fr_fileItems fr)
              = mset (fr_unchanged fr)
                + mset (map (\<lambda>u. fileItemOf fsPath (the (folderOf folders u)) u)
                         (filter (\<lambda>u. folderOf folders u \<noteq> None) (fr_toIndex fr)))
          \<and> sorted_wrt (\<lambda>a b. currentMtime cur b \<le> currentMtime cur a) (fr_fileItems fr)
          \<and> set (fr_unchanged fr) \<subseteq> set (fr_fileItems fr)))
   \<and> (tryLoadFromCache wcache fp man = Some items \<longrightarrow>
        (\<exists>c. wcache = Some c \<and> ws_version c = CACHE_VERSION \<and> ws_workspaceFingerprint c = fp
           \<and> length man = length (ws_manifest c)
           \<and> list_all (\<lambda>e. symbolCachedMtime c (m_uri e) = Some (m_mtime e)) man
           \<and> items = map deserializeWorkspaceSymbolItem (ws_items c)))
   \<and> (e \<in> set man \<and> symbolCachedMtime wc (m_uri e) \<noteq> Some (m_mtime e) \<longrightarrow>
        tryLoadFromCache (Some wc) fp man = None
      \<and> runRefreshInternal force hasStorage (Some wc) fp man full = full)
   \<and> (docRefreshFromCacheOrFull ex ix dcache fp cur \<noteq> None
      \<longleftrightarrow> (\<exists>c. dcache = Some c \<and> ds_version c = CACHE_VERSION \<and> ds_workspaceFingerprint c = fp))
   \<and> (docRefreshFromCacheOrFull ex ix (Some dc) fp cur = Some dr \<longrightarrow>
        dr_toIndex dr = filter (\<lambda>e. \<not> docFresh dc e) cur
      \<and> dr_symbolItems dr
          = concat (map (docCachedSymbols dc) (filter (docFresh dc) cur))
            @ concat (map (\<lambda>e. ix (fst e)) (filter (\<lambda>e. \<not> ex (fst e)) (dr_toIndex dr))))"
proof -
  have 1: "fileRefreshFromCacheOrFull sortFn fsPath folders fcache fp cur \<noteq> None
      \<longleftrightarrow> (\<exists>c. fcache = Some c \<and> fi_version c = CACHE_VERSION \<and> fi_workspaceFingerprint c = fp)"
    by (rule file_used_iff)
  have 2: "fileRefreshFromCacheOrFull sortFn fsPath folders (Some fc) fp cur = Some fr \<longrightarrow>
        fr_toIndex fr = map fst (filter (\<lambda>e. \<not> fileFresh fc e) cur)
      \<and> fr_unchanged fr = map (\<lambda>e. deserializeFileItem fsPath (the (fileCachedItem fc (fst e))))
                             (filter (fileFresh fc) cur)
      \<and> (conformingSort sortFn \<longrightarrow>
            mset (fr_fileItems fr)
              = mset (fr_unchanged fr)
                + mset (map (\<lambda>u. fileItemOf fsPath (the (folderOf folders u)) u)
                         (filter (\<lambda>u. folderOf folders u \<noteq> None) (fr_toIndex fr)))
          \<and> sorted_wrt (\<lambda>a b. currentMtime cur b \<le> currentMtime cur a) (fr_fileItems fr)
          \<and> set (fr_unchanged fr) \<subseteq> set (fr_fileItems fr))"
    using file_partial(1,2) [of sortFn fsPath folders fc fp cur fr]
      file_items [of sortFn fsPath folders fc fp cur fr] by blast
  have 3: "tryLoadFromCache wcache fp man = Some items \<longrightarrow>
        (\<exists>c. wcache = Some c \<and> ws_version c = CACHE_VERSION \<and> ws_workspaceFingerprint c = fp
           \<and> length man = length (ws_manifest c)
           \<and> list_all (\<lambda>e. symbolCachedMtime c (m_uri e) = Some (m_mtime e)) man
           \<and> items = map deserializeWorkspaceSymbolItem (ws_items c))"
    using symbol_used by blast
  have 4: "e \<in> set man \<and> symbolCachedMtime wc (m_uri e) \<noteq> Some (m_mtime e) \<longrightarrow>
        tryLoadFromCache (Some wc) fp man = None
      \<and> runRefreshInternal force hasStorage (Some wc) fp man full = full"
    using symbol_any_mismatch [of e man wc] by blast
  have 5: "docRefreshFromCacheOrFull ex ix dcache fp cur \<noteq> None
      \<longleftrightarrow> (\<exists>c. dcache = Some c \<and> ds_version c = CACHE_VERSION \<and> ds_workspaceFingerprint c = fp)"
    by (rule doc_used_iff)
  have 6: "docRefreshFromCacheOrFull ex ix (Some dc) fp cur = Some dr \<longrightarrow>
        dr_toIndex dr = filter (\<lambda>e. \<not> docFresh dc e) cur
      \<and> dr_symbolItems dr
          = concat (map (docCachedSymbols dc) (filter (docFresh dc) cur))
            @ concat (map (\<lambda>e. ix (fst e)) (filter (\<lambda>e. \<not> ex (fst e)) (dr_toIndex dr)))"
    using doc_partial [of ex ix dc fp cur dr] by blast
  from 1 2 3 4 5 6 show ?thesis by blast
qed

lemma ex_file_refresh:
  "fileRefreshFromCacheOrFull arraySort exFsPath [''file:///w''] (Some exFileCache) ''file:///w'' exCurrent
     = Some \<lparr>fr_fileItems = [fileItemOf exFsPath ''file:///w'' ''file:///w/b.ts'',
                              deserializeFileItem exFsPath exSerA],
             fr_unchanged = [deserializeFileItem exFsPath exSerA],
             fr_toIndex = [''file:///w/b.ts'']\<rparr>"
  by (simp add: fileRefreshFromCacheOrFull_def exFileCache_def exManifest_def exCurrent_def
      CACHE_VERSION_def jsMap_def exSerA_def exSerB_def partitionEntry_def Let_def
      groupUrisByFolder_def groupUri_def startsWith_def processFileBatch_def arraySort2
      deserializeFileItem_def fileItemOf_def)

theorem cache_validation_witness:
  "conformingSort (arraySort :: (SearchItem \<Rightarrow> SearchItem \<Rightarrow> jsnum) \<Rightarrow> SearchItem list \<Rightarrow> SearchItem list)
   \<and> fr_toIndex (the (fileRefreshFromCacheOrFull arraySort exFsPath [''file:///w'']
                      (Some exFileCache) ''file:///w'' exCurrent)) = [''file:///w/b.ts'']
   \<and> fr_unchanged (the (fileRefreshFromCacheOrFull arraySort exFsPath [''file:///w'']
                      (Some exFileCache) ''file:///w'' exCurrent)) = [deserializeFileItem exFsPath exSerA]
   \<and> mset (fr_fileItems (the (fileRefreshFromCacheOrFull arraySort exFsPath [''file:///w'']
                      (Some exFileCache) ''file:///w'' exCurrent)))
       = {#deserializeFileItem exFsPath exSerA, fileItemOf exFsPath ''file:///w'' ''file:///w/b.ts''#}
   \<and> tryLoadFromCache (Some exSymbolCache) ''file:///w''
        [\<lparr>m_uri = ''file:///w/a.ts'', m_mtime = 100\<rparr>, \<lparr>m_uri = ''file:///w/b.ts'', m_mtime = 300\<rparr>]
      = None
   \<and> runRefreshInternal False True (Some exSymbolCache) ''file:///w''
        [\<lparr>m_uri = ''file:///w/a.ts'', m_mtime = 100\<rparr>, \<lparr>m_uri = ''file:///w/b.ts'', m_mtime = 300\<rparr>]
        [exSymbol, exClass]
      = [exSymbol, exClass]
   \<and> tryLoadFromCache (Some exSymbolCache) ''file:///w'' exManifest
      = Some [deserializeWorkspaceSymbolItem (exCorrupted\<lparr>ss_type := ''symbol''\<rparr>)]
   \<and> dr_toIndex (the (docRefreshFromCacheOrFull (\<lambda>u. False) (\<lambda>u. [exSymbol]) (Some exDocCache)
                      ''file:///w'' exCurrent)) = [(''file:///w/b.ts'', 300)]
   \<and> dr_symbolItems (the (docRefreshFromCacheOrFull (\<lambda>u. False) (\<lambda>u. [exSymbol]) (Some exDocCache)
                      ''file:///w'' exCurrent)) = [deserializeSymbolItem exCorrupted, exSymbol]"
proof -
  let ?man = "[\<lparr>m_uri = ''file:///w/a.ts'', m_mtime = 100\<rparr>, \<lparr>m_uri = ''file:///w/b.ts'', m_mtime = 300\<rparr>]"
  let ?fr = "fileRefreshFromCacheOrFull arraySort exFsPath [''file:///w''] (Some exFileCache) ''file:///w'' exCurrent"
  let ?dr = "docRefreshFromCacheOrFull (\<lambda>u. False) (\<lambda>u. [exSymbol]) (Some exDocCache) ''file:///w'' exCurrent"
  have ac: "conformingSort (arraySort :: (SearchItem \<Rightarrow> SearchItem \<Rightarrow> jsnum) \<Rightarrow> SearchItem list \<Rightarrow> SearchItem list)"
    by (rule arraySort_conforming)
  note inst = cache_validation [where sortFn = arraySort and fsPath = exFsPath
      and folders = "[''file:///w'']" and fcache = "Some exFileCache" and fp = "''file:///w''"
      and cur = exCurrent and fc = exFileCache and fr = "the ?fr" and wcache = "Some exSymbolCache"
      and man = ?man and items = "[]"
      and e = "\<lparr>m_uri = ''file:///w/b.ts'', m_mtime = 300\<rparr>" and wc = exSymbolCache
      and force = False and hasStorage = True and full = "[exSymbol, exClass]"
      and ex = "\<lambda>u. False" and ix = "\<lambda>u. [exSymbol]" and dcache = "Some exDocCache"
      and dc = exDocCache and dr = "the ?dr"]
  have fv: "fi_version exFileCache = CACHE_VERSION" "fi_workspaceFingerprint exFileCache = ''file:///w''"
    by (simp_all add: exFileCache_def CACHE_VERSION_def)
  have dv: "ds_version exDocCache = CACHE_VERSION" "ds_workspaceFingerprint exDocCache = ''file:///w''"
    by (simp_all add: exDocCache_def CACHE_VERSION_def)
  from inst fv have "?fr \<noteq> None" by blast
  then have frs: "?fr = Some (the ?fr)" by simp
  from inst dv have "?dr \<noteq> None" by blast
  then have drs: "?dr = Some (the ?dr)" by simp
  have fresh: "filter (fileFresh exFileCache) exCurrent = [(''file:///w/a.ts'', 100)]"
    "filter (\<lambda>e. \<not> fileFresh exFileCache e) exCurrent = [(''file:///w/b.ts'', 300)]"
    "the (fileCachedItem exFileCache ''file:///w/a.ts'') = exSerA"
    by (simp_all add: fileFresh_def fileCachedMtime_def fileCachedItem_def exFileCache_def
        exManifest_def exCurrent_def jsMap_def exSerA_def exSerB_def)
  from inst frs fresh have 1: "fr_toIndex (the ?fr) = [''file:///w/b.ts'']"
    "fr_unchanged (the ?fr) = [deserializeFileItem exFsPath exSerA]"
    by simp_all
  have fo: "folderOf [''file:///w''] ''file:///w/b.ts'' = Some ''file:///w''"
    by (simp add: folderOf_def startsWith_def)
  from inst frs ac have "mset (fr_fileItems (the ?fr))
      = mset (fr_unchanged (the ?fr))
        + mset (map (\<lambda>u. fileItemOf exFsPath (the (folderOf [''file:///w''] u)) u)
                 (filter (\<lambda>u. folderOf [''file:///w''] u \<noteq> None) (fr_toIndex (the ?fr))))"
    by blast
  then have 5: "mset (fr_fileItems (the ?fr))
       = {#deserializeFileItem exFsPath exSerA, fileItemOf exFsPath ''file:///w'' ''file:///w/b.ts''#}"
    by (simp add: 1 fo)
  have mism: "symbolCachedMtime exSymbolCache ''file:///w/b.ts'' \<noteq> Some 300"
    by (simp add: symbolCachedMtime_def exSymbolCache_def exManifest_def jsMap_def)
  from inst mism have 2: "tryLoadFromCache (Some exSymbolCache) ''file:///w'' ?man = None"
    "runRefreshInternal False True (Some exSymbolCache) ''file:///w'' ?man [exSymbol, exClass]
       = [exSymbol, exClass]"
    by simp_all
  have 3: "tryLoadFromCache (Some exSymbolCache) ''file:///w'' exManifest
      = Some [deserializeWorkspaceSymbolItem (exCorrupted\<lparr>ss_type := ''symbol''\<rparr>)]"
    by (simp add: tryLoadFromCache_def exSymbolCache_def exManifest_def jsMap_def CACHE_VERSION_def)
  have dfresh: "filter (docFresh exDocCache) exCurrent = [(''file:///w/a.ts'', 100)]"
    "filter (\<lambda>e. \<not> docFresh exDocCache e) exCurrent = [(''file:///w/b.ts'', 300)]"
    "docCachedSymbols exDocCache (''file:///w/a.ts'', 100) = [deserializeSymbolItem exCorrupted]"
    by (simp_all add: docFresh_def docCachedSymbols_def exDocCache_def exCurrent_def)
  from inst drs dfresh have 4: "dr_toIndex (the ?dr) = [(''file:///w/b.ts'', 300)]"
    "dr_symbolItems (the ?dr) = [deserializeSymbolItem exCorrupted, exSymbol]"
    by simp_all
  from ac 1 5 2 3 4 show ?thesis by blast
qed

text \<open>
  The claim as stated fails for the file index: \<open>b.ts\<close> has a new mtime, yet the cache
  is used, \<open>a.ts\<close> is taken from it, and \<open>b.ts\<close> alone is indexed again.
\<close>

theorem file_index_partial_counterexample:
  "fileCachedMtime exFileCache ''file:///w/b.ts'' = Some 200
   \<and> exCurrent = [(''file:///w/a.ts'', 100), (''file:///w/b.ts'', 300)]
   \<and> fileRefreshFromCacheOrFull arraySort exFsPath [''file:///w''] (Some exFileCache) ''file:///w'' exCurrent
     = Some \<lparr>fr_fileItems = [fileItemOf exFsPath ''file:///w'' ''file:///w/b.ts'',
                              deserializeFileItem exFsPath exSerA],
             fr_unchanged = [deserializeFileItem exFsPath exSerA],
             fr_toIndex = [''file:///w/b.ts'']\<rparr>"
  by (simp add: ex_file_refresh)
     (simp add: fileCachedMtime_def exFileCache_def exManifest_def jsMap_def exCurrent_def)

section \<open>The shared refresh\<close>

text \<open>
  C6, at the failing input. A call that is not forced is in flight (refresh 0) when two
  forced calls arrive. Both wait for refresh 0; when it finishes each of them continues
  in turn, clears \<open>refreshPromise\<close> and starts a refresh of its own, so the refreshes 1
  and 2 run at the same time, and three full passes were started for three calls. When
  refresh 1 then finishes, its caller clears \<open>refreshPromise\<close> although refresh 2 is
  still running, and the next call that is not forced starts refresh 3 beside it. Where
  the claim holds: two calls that are not forced share one pass and return after the
  same completion, and one forced call starts its refresh after the one in flight has
  finished.
\<close>

theorem forced_refreshes_overlap:
  "running (run [Call False, Call True, Call True, Settle 0]) = [1, 2]
   \<and> passes (run [Call False, Call True, Call True, Settle 0]) = 3
   \<and> running (run [Call False, Call True, Call True, Settle 0, Settle 1, Call False]) = [2, 3]
   \<and> run [Call False, Call False, Settle 0]
       = \<lparr>refreshPromise = None, nextPromise = 1, running = [], waiting = [],
          nextCall = 2, returned = [0, 1], passes = 1\<rparr>
   \<and> running (run [Call False, Call True]) = [0]
   \<and> running (run [Call False, Call True, Settle 0]) = [1]"
  by (simp add: run_def initialService_def callRefreshIndex_def startRefresh_def settle_def
      resume_def Let_def)

end
